theory Spec2Isabelle
  imports Main "HOL-Library.AList" "HOL-Library.List_Lexorder" "HOL-Library.Char_ord"
begin

section \<open>Strings and paths\<close>

text \<open>
  Python strings are modelled as \<open>string\<close>. The functions of this section are the
  library operations the source calls: \<open>str.startswith\<close>, \<open>str.endswith\<close>, \<open>str.split\<close>
  with the one-character separator \<open>os.path.sep\<close>, and \<open>os.path.join\<close>,
  \<open>os.path.basename\<close>, \<open>os.path.dirname\<close> on a POSIX system.
\<close>

type_synonym path = string

definition sep :: char where
  "sep = CHR ''/''"

definition startswith :: "string \<Rightarrow> string \<Rightarrow> bool" where
  "startswith s pre = (take (length pre) s = pre)"

definition endswith :: "string \<Rightarrow> string \<Rightarrow> bool" where
  "endswith s suf = (length suf \<le> length s \<and> drop (length s - length suf) s = suf)"

fun split_on :: "char \<Rightarrow> string \<Rightarrow> string list" where
  "split_on c [] = [[]]"
| "split_on c (x # xs) =
     (if x = c then [] # split_on c xs
      else (case split_on c xs of [] \<Rightarrow> [[x]] | w # ws \<Rightarrow> (x # w) # ws))"

definition join :: "path \<Rightarrow> path \<Rightarrow> path" where
  "join a b =
     (if startswith b [sep] then b
      else if a = [] \<or> last a = sep then a @ b
      else a @ [sep] @ b)"

definition basename :: "path \<Rightarrow> string" where
  "basename p = rev (takeWhile (\<lambda>c. c \<noteq> sep) (rev p))"

definition rstrip_sep :: "string \<Rightarrow> string" where
  "rstrip_sep s = rev (dropWhile (\<lambda>c. c = sep) (rev s))"

definition dirname :: "path \<Rightarrow> path" where
  "dirname p =
     (let head = rev (dropWhile (\<lambda>c. c \<noteq> sep) (rev p))
      in if head \<noteq> [] \<and> \<not> list_all (\<lambda>c. c = sep) head then rstrip_sep head else head)"

text \<open>
  The location a path names. A location is the list of the directory names from the root
  down to the file. \<open>components\<close> drops the empty and the \<open>.\<close> pieces of a path,
  \<open>walk\<close> follows the pieces from a location, \<open>..\<close> leading to the parent (the parent of
  the root is the root), as \<open>os.path.abspath\<close> does. There are no symbolic links.
\<close>

type_synonym node = "string list"

definition components :: "path \<Rightarrow> string list" where
  "components p = filter (\<lambda>x. x \<noteq> [] \<and> x \<noteq> ''.'') (split_on sep p)"

fun walk :: "node \<Rightarrow> string list \<Rightarrow> node" where
  "walk loc [] = loc"
| "walk loc (x # xs) = (if x = ''..'' then walk (butlast loc) xs else walk (loc @ [x]) xs)"

text \<open>\<open>'/'.join\<close> of a list of names.\<close>

fun slash_join :: "string list \<Rightarrow> string" where
  "slash_join [] = []"
| "slash_join [x] = x"
| "slash_join (x # y # ys) = x @ [sep] @ slash_join (y # ys)"

text \<open>A name a directory entry can have.\<close>

definition plain :: "string \<Rightarrow> bool" where
  "plain x = (x \<noteq> [] \<and> x \<noteq> ''.'' \<and> x \<noteq> ''..'' \<and> sep \<notin> set x)"

section \<open>The site object\<close>

text \<open>
  \<open>GrashSite.__init__\<close> stores the fields below (the Jinja environment and the logger are
  external collaborators and are passed to the operations that use them). The method
  \<open>copyStatic\<close> reads \<open>self.buildPath\<close>, an attribute that \<open>__init__\<close> never assigns:
  \<open>buildPath\<close> is \<open>None\<close> for every object the constructor builds (reading it raises
  \<open>AttributeError\<close>), and \<open>Some p\<close> only when a caller has set the attribute on the
  instance afterwards.
\<close>

record site =
  encoding :: string
  templatePath :: path
  buildDir :: path
  staticDirs :: "string list"
  pandocDirs :: "string list"
  pandocTypes :: "string list"
  verbose :: bool
  buildPath :: "path option"

section \<open>Classification predicates\<close>

text \<open>
  \<open>isStatic\<close> and \<open>isPandoc\<close>: when the configured list is empty the result is \<open>False\<close>;
  otherwise the \<open>for\<close> loop returns in both branches of its first iteration, so only the
  first configured directory is ever compared, and the comparison is
  \<open>dirpath.startswith(dirname)\<close>: the configured directory starts with the argument
  (\<open>name\<close> below). The loop is never entered with an empty list.
\<close>

fun first_iteration :: "string list \<Rightarrow> string \<Rightarrow> bool" where
  "first_iteration [] name = False"
| "first_iteration (dirpath # rest) name =
     (if startswith dirpath name then True else False)"

definition isStatic :: "site \<Rightarrow> string \<Rightarrow> bool" where
  "isStatic s name =
     (if staticDirs s = [] then False else first_iteration (staticDirs s) name)"

definition isPandoc :: "site \<Rightarrow> string \<Rightarrow> bool" where
  "isPandoc s name =
     (if pandocDirs s = [] then False else first_iteration (pandocDirs s) name)"

definition isModule :: "string \<Rightarrow> bool" where
  "isModule p = list_ex (\<lambda>route. startswith route ''_'') (split_on sep p)"

definition isPrivate :: "string \<Rightarrow> bool" where
  "isPrivate p = list_ex (\<lambda>route. startswith route ''.'') (split_on sep p)"

definition isTemplate :: "site \<Rightarrow> string \<Rightarrow> bool" where
  "isTemplate s p =
     (if isModule p \<or> isPrivate p \<or> isStatic s p \<or> isPandoc s p then False else True)"

subsection \<open>The specification's reading of the predicates\<close>

text \<open>
  The containment test as the specification words it: the path starts with one of the
  configured prefixes, every prefix being tried.
\<close>

definition lies_under_spec :: "string list \<Rightarrow> string \<Rightarrow> bool" where
  "lies_under_spec prefixes p = list_ex (\<lambda>d. startswith p d) prefixes"

text \<open>
  A path has a segment starting with the character \<open>c\<close> when \<open>c\<close> occurs at the very
  beginning of the path or right after a separator.
\<close>

definition segment_starts_with :: "char \<Rightarrow> string \<Rightarrow> bool" where
  "segment_starts_with c p =
     list_ex (\<lambda>i. p ! i = c \<and> (i = 0 \<or> p ! (i - 1) = sep)) [0..<length p]"

text \<open>
  The five categories of the specification, and the first-match classification in the
  order Module, Private, Static, Document, with Page otherwise.
\<close>

datatype category = Page | Module | Static | Document | Private

definition classify_spec :: "site \<Rightarrow> string \<Rightarrow> category" where
  "classify_spec s p =
     (if isModule p then Module
      else if isPrivate p then Private
      else if isStatic s p then Static
      else if isPandoc s p then Document
      else Page)"

text \<open>
  An auxiliary form of \<open>segment_starts_with\<close> for a suffix of a path: the flag says
  whether the first position of the suffix is the beginning of a segment.
\<close>

definition seg_from :: "bool \<Rightarrow> char \<Rightarrow> string \<Rightarrow> bool" where
  "seg_from b c p = (\<exists>i<length p. p ! i = c \<and> (if i = 0 then b else p ! (i - 1) = sep))"

section \<open>The file system and the external collaborators\<close>

text \<open>
  The collaborators the source calls and does not define: \<open>os.getcwd()\<close> (an absolute
  path), \<open>pypandoc.convert(text, "html", format=docType)\<close> as a function of the text and
  the format, and the rendering of a Jinja template as a function of the encoding, the
  source Jinja finds for each template name, and the template's name.
\<close>

record collab =
  getcwd :: path
  pandoc :: "string \<Rightarrow> string \<Rightarrow> string"
  jinja :: "string \<Rightarrow> (path \<Rightarrow> string option) \<Rightarrow> path \<Rightarrow> string"

text \<open>
  The operating system resolves a relative path against the working directory: two
  spellings of a file name the same location.
\<close>

definition resolve :: "collab \<Rightarrow> path \<Rightarrow> node" where
  "resolve c p = walk [] (components (join (getcwd c) p))"

text \<open>
  The state of a build: the table of the regular files (location and content, in the
  order a directory listing yields them), the directories that were created explicitly
  (every directory above a file or above a directory exists as well, and so does the
  root), and the trace of the file-system calls carried out so far. \<open>Mkdir\<close> is
  \<open>pathlib.Path(d).mkdir(parents=True, exist_ok=True)\<close>, \<open>Write\<close> is the
  \<open>open(newFilepath, 'w')\<close> and \<open>f.write\<close> of \<open>renderDoc\<close>, \<open>Dump\<close> is
  \<open>template.stream().dump\<close> of \<open>renderTemplate\<close> and \<open>Copy\<close> is \<open>shutil.copy2\<close> with the
  bytes it copied; each event carries the path as the source passed it.

  Opening a file for writing raises \<open>FileNotFoundError\<close> when the directory of the file
  does not exist, and \<open>IsADirectoryError\<close> when the path names the root; reading a file
  that is not in the table raises \<open>FileNotFoundError\<close>. The other failures of the
  operating system (a file or a directory in the way, permissions, a full disk) are
  outside the model.
\<close>

datatype error =
    AssertionError string
  | AttributeError string
  | TemplateNotFound string
  | FileNotFoundError string
  | IsADirectoryError string

datatype event = Mkdir path | Write path string | Dump path string | Copy path path string

record world =
  files :: "(node \<times> string) list"
  dirs :: "node list"
  trace :: "event list"

type_synonym outcome = "error option \<times> world"

definition is_under :: "node \<Rightarrow> node \<Rightarrow> bool" where
  "is_under d k = (length d < length k \<and> take (length d) k = d)"

definition isdir :: "world \<Rightarrow> node \<Rightarrow> bool" where
  "isdir w d = (d = [] \<or> d \<in> set (dirs w) \<or> list_ex (is_under d) (dirs w @ map fst (files w)))"

definition isfile :: "collab \<Rightarrow> world \<Rightarrow> path \<Rightarrow> bool" where
  "isfile c w p = (map_of (files w) (resolve c p) \<noteq> None)"

definition mkdir_p :: "collab \<Rightarrow> path \<Rightarrow> world \<Rightarrow> world" where
  "mkdir_p c d w = w\<lparr>dirs := resolve c d # dirs w, trace := trace w @ [Mkdir d]\<rparr>"

text \<open>The exception that opening \<open>p\<close> for writing raises, if any.\<close>

definition open_error :: "collab \<Rightarrow> world \<Rightarrow> path \<Rightarrow> error option" where
  "open_error c w p =
     (if resolve c p = [] then Some (IsADirectoryError p)
      else if \<not> isdir w (butlast (resolve c p)) then Some (FileNotFoundError p)
      else None)"

definition write_text :: "collab \<Rightarrow> path \<Rightarrow> string \<Rightarrow> world \<Rightarrow> outcome" where
  "write_text c p content w =
     (case open_error c w p of
        Some e \<Rightarrow> (Some e, w)
      | None \<Rightarrow> (None, w\<lparr>files := AList.update (resolve c p) content (files w),
                         trace := trace w @ [Write p content]\<rparr>))"

definition dump :: "collab \<Rightarrow> path \<Rightarrow> string \<Rightarrow> world \<Rightarrow> outcome" where
  "dump c p content w =
     (case open_error c w p of
        Some e \<Rightarrow> (Some e, w)
      | None \<Rightarrow> (None, w\<lparr>files := AList.update (resolve c p) content (files w),
                         trace := trace w @ [Dump p content]\<rparr>))"

definition copy2 :: "collab \<Rightarrow> path \<Rightarrow> path \<Rightarrow> world \<Rightarrow> outcome" where
  "copy2 c src dst w =
     (case map_of (files w) (resolve c src) of
        None \<Rightarrow> (Some (FileNotFoundError src), w)
      | Some content \<Rightarrow>
          (case open_error c w dst of
             Some e \<Rightarrow> (Some e, w)
           | None \<Rightarrow> (None, w\<lparr>files := AList.update (resolve c dst) content (files w),
                              trace := trace w @ [Copy src dst content]\<rparr>)))"

text \<open>
  \<open>pathlib.Path(source).glob('*.' + docType)\<close>: the files directly in the directory
  \<open>source\<close> whose name ends with a dot and the document type (the type is taken to hold
  no wildcard character, and directories with such a name are not considered), in
  listing order, each as the path \<open>source/name\<close>.
\<close>

definition glob_match :: "collab \<Rightarrow> path \<Rightarrow> string \<Rightarrow> node \<Rightarrow> bool" where
  "glob_match c source docType k =
     (k \<noteq> [] \<and> butlast k = resolve c source \<and> plain (last k)
      \<and> endswith (last k) (''.'' @ docType))"

definition glob :: "collab \<Rightarrow> world \<Rightarrow> path \<Rightarrow> string \<Rightarrow> path list" where
  "glob c w source docType =
     map (\<lambda>k. join source (last k)) (filter (glob_match c source docType) (map fst (files w)))"

text \<open>
  \<open>filepath.with_suffix('').name\<close>: the name without its last suffix; a name has a suffix
  when its last dot is neither its first nor its last character.
\<close>

definition stem :: "string \<Rightarrow> string" where
  "stem name =
     (let ext = rev (takeWhile (\<lambda>c. c \<noteq> CHR ''.'') (rev name));
          i = length name - length ext - 1
      in if CHR ''.'' \<in> set name \<and> 0 < i \<and> ext \<noteq> [] then take i name else name)"

text \<open>
  \<open>FileSystemLoader.list_templates\<close> walks the search path and names every file below it
  by its path relative to the search path; walking an empty search path finds nothing.
  The listing is duplicate-free and sorted.
\<close>

definition relative_name :: "collab \<Rightarrow> path \<Rightarrow> node \<Rightarrow> path option" where
  "relative_name c root k =
     (if root \<noteq> [] \<and> is_under (resolve c root) k
      then Some (slash_join (drop (length (resolve c root)) k)) else None)"

definition list_templates :: "collab \<Rightarrow> world \<Rightarrow> path \<Rightarrow> path list" where
  "list_templates c w root =
     sort (remdups (List.map_filter (relative_name c root) (map fst (files w))))"

text \<open>
  \<open>FileSystemLoader.get_source\<close> splits the template name at the slashes, refuses a name
  with a \<open>..\<close> piece, drops the empty and the \<open>.\<close> pieces, and opens
  \<open>join(searchpath, *pieces)\<close>, the file those pieces lead to from the search path.
\<close>

definition split_template_path :: "path \<Rightarrow> string list option" where
  "split_template_path t =
     (let pieces = split_on sep t
      in if ''..'' \<in> set pieces then None
         else Some (filter (\<lambda>x. x \<noteq> [] \<and> x \<noteq> ''.'') pieces))"

definition template_source :: "collab \<Rightarrow> world \<Rightarrow> path \<Rightarrow> path \<Rightarrow> string option" where
  "template_source c w root t =
     (case split_template_path t of
        None \<Rightarrow> None
      | Some pieces \<Rightarrow> map_of (files w) (resolve c root @ pieces))"

section \<open>Enumeration and dependencies\<close>

datatype template = Template (name: path)

definition templateNames :: "collab \<Rightarrow> site \<Rightarrow> world \<Rightarrow> path list" where
  "templateNames c s w = filter (isTemplate s) (list_templates c w (templatePath s))"

definition staticFiles :: "collab \<Rightarrow> site \<Rightarrow> world \<Rightarrow> path list" where
  "staticFiles c s w = filter (isStatic s) (list_templates c w (templatePath s))"

text \<open>
  \<open>get_template\<close> finds a template when \<open>get_source\<close> finds its file and raises
  \<open>TemplateNotFound\<close> otherwise.
\<close>

definition getTemplate :: "collab \<Rightarrow> site \<Rightarrow> world \<Rightarrow> path \<Rightarrow> error + template" where
  "getTemplate c s w templateName =
     (if template_source c w (templatePath s) templateName \<noteq> None
      then Inr (Template templateName)
      else Inl (TemplateNotFound templateName))"

text \<open>
  The generator \<open>templates\<close> yields \<open>getTemplate\<close> of every listed template name; the
  names come from the listing, so each of them is found.
\<close>

definition templates :: "collab \<Rightarrow> site \<Rightarrow> world \<Rightarrow> template list" where
  "templates c s w = map Template (templateNames c s w)"

datatype dependency = Tmpl template | Filename path

text \<open>
  \<open>getDependencies\<close>. The third condition of the source is
  \<open>self.isStatic(filename) or self.isPandoc\<close>: the second operand is the bound method
  itself, not a call, and a method object is true.
\<close>

definition isPandoc_method_truth :: bool where
  "isPandoc_method_truth = True"

definition getDependencies :: "collab \<Rightarrow> site \<Rightarrow> world \<Rightarrow> path \<Rightarrow> error + dependency list" where
  "getDependencies c s w filename =
     (if isModule filename then Inr (map Tmpl (templates c s w))
      else if isTemplate s filename then
        (case getTemplate c s w filename of Inl e \<Rightarrow> Inl e | Inr t \<Rightarrow> Inr [Tmpl t])
      else if isStatic s filename \<or> isPandoc_method_truth then Inr [Filename filename]
      else Inr [])"



section \<open>The build\<close>

text \<open>
  Every operation takes the state and returns the new state together with the exception
  that ended it, if any; the state returned with an exception is the state at the moment
  it was raised.
\<close>

definition ensureParent :: "collab \<Rightarrow> site \<Rightarrow> path \<Rightarrow> world \<Rightarrow> world" where
  "ensureParent c s filename w =
     (let parent = dirname filename
      in if parent \<noteq> [] then mkdir_p c (join (buildDir s) parent) w else w)"

subsection \<open>Documents\<close>

definition platify :: "string \<Rightarrow> string \<Rightarrow> string" where
  "platify str tmpl =
     (let prefix = ''{% extends '' @ [CHR 0x22] @ tmpl @ [CHR 0x22] @ '' %}'' @ [CHR 0x0A]
                   @ ''{% block body %}'';
          suffix = ''{% endblock %}''
      in prefix @ [CHR 0x0A] @ str @ [CHR 0x0A] @ suffix)"

text \<open>The file \<open>renderDoc\<close> writes for one document, in either layout.\<close>

definition newFilepath :: "path \<Rightarrow> bool \<Rightarrow> path \<Rightarrow> path" where
  "newFilepath destination prettyLink filepath =
     (if prettyLink then join (join destination (stem (basename filepath))) ''index.html''
      else join destination (basename filepath))"

text \<open>One turn of the loop of \<open>renderDoc\<close>, and the loop.\<close>

definition renderDoc_file ::
  "collab \<Rightarrow> string \<Rightarrow> path \<Rightarrow> string \<Rightarrow> bool \<Rightarrow> path \<Rightarrow> world \<Rightarrow> outcome" where
  "renderDoc_file c docType destination docTemplate prettyLink filepath w =
     (case map_of (files w) (resolve c filepath) of
        None \<Rightarrow> (Some (FileNotFoundError filepath), w)
      | Some text \<Rightarrow>
          (let htmltext = platify (pandoc c text docType) docTemplate
           in if prettyLink then
                write_text c (newFilepath destination True filepath) htmltext
                  (mkdir_p c (join destination (stem (basename filepath))) w)
              else write_text c (newFilepath destination False filepath) htmltext w))"

fun renderDoc_loop ::
  "collab \<Rightarrow> string \<Rightarrow> path \<Rightarrow> string \<Rightarrow> bool \<Rightarrow> path list \<Rightarrow> world \<Rightarrow> outcome" where
  "renderDoc_loop c docType destination docTemplate prettyLink [] w = (None, w)"
| "renderDoc_loop c docType destination docTemplate prettyLink (filepath # rest) w =
     (case renderDoc_file c docType destination docTemplate prettyLink filepath w of
        (Some e, w') \<Rightarrow> (Some e, w')
      | (None, w') \<Rightarrow> renderDoc_loop c docType destination docTemplate prettyLink rest w')"

definition docTemplate_of :: "path \<Rightarrow> string" where
  "docTemplate_of p = ''_'' @ basename p @ ''.html''"

definition renderDoc :: "collab \<Rightarrow> site \<Rightarrow> string \<Rightarrow> path \<Rightarrow> bool \<Rightarrow> world \<Rightarrow> outcome" where
  "renderDoc c s docType p prettyLink w =
     (let source = join (getcwd c) p;
          destination = join (templatePath s) p;
          docfilepaths = glob c w source docType;
          docTemplate = docTemplate_of p;
          tp = join (templatePath s) docTemplate
      in if \<not> isfile c w tp then
           (Some (AssertionError (''No template '' @ tp @ '' has been found, aborting.'')), w)
         else renderDoc_loop c docType destination docTemplate prettyLink docfilepaths w)"

text \<open>
  \<open>renderDocs\<close> receives \<open>prettyLink\<close> and calls \<open>renderDoc\<close> with the literal
  \<open>prettyLink=True\<close>.
\<close>

fun renderDocs :: "collab \<Rightarrow> site \<Rightarrow> string \<Rightarrow> path list \<Rightarrow> bool \<Rightarrow> world \<Rightarrow> outcome" where
  "renderDocs c s docType [] prettyLink w = (None, w)"
| "renderDocs c s docType (p # rest) prettyLink w =
     (case renderDoc c s docType p True w of
        (Some e, w') \<Rightarrow> (Some e, w')
      | (None, w') \<Rightarrow> renderDocs c s docType rest prettyLink w')"

subsection \<open>Pages\<close>

definition renderTemplate :: "collab \<Rightarrow> site \<Rightarrow> template \<Rightarrow> world \<Rightarrow> outcome" where
  "renderTemplate c s t w =
     (let w1 = ensureParent c s (name t) w;
          filepath = join (buildDir s) (name t)
      in dump c filepath
           (jinja c (encoding s) (template_source c w1 (templatePath s)) (name t)) w1)"

fun renderTemplates :: "collab \<Rightarrow> site \<Rightarrow> template list \<Rightarrow> world \<Rightarrow> outcome" where
  "renderTemplates c s [] w = (None, w)"
| "renderTemplates c s (t # rest) w =
     (case renderTemplate c s t w of
        (Some e, w') \<Rightarrow> (Some e, w')
      | (None, w') \<Rightarrow> renderTemplates c s rest w')"

subsection \<open>Static files\<close>

text \<open>One turn of the loop of \<open>copyStatic\<close>, and the loop.\<close>

definition copyStatic_file :: "collab \<Rightarrow> site \<Rightarrow> path \<Rightarrow> world \<Rightarrow> outcome" where
  "copyStatic_file c s p w =
     (let source = join (getcwd c) p
      in case buildPath s of
           None \<Rightarrow> (Some (AttributeError ''buildPath''), w)
         | Some bp \<Rightarrow>
             (let destination = join bp p
              in copy2 c source destination (ensureParent c s p w)))"

fun copyStatic :: "collab \<Rightarrow> site \<Rightarrow> path list \<Rightarrow> world \<Rightarrow> outcome" where
  "copyStatic c s [] w = (None, w)"
| "copyStatic c s (p # rest) w =
     (case copyStatic_file c s p w of
        (Some e, w') \<Rightarrow> (Some e, w')
      | (None, w') \<Rightarrow> copyStatic c s rest w')"

subsection \<open>The full build\<close>

fun render_docTypes :: "collab \<Rightarrow> site \<Rightarrow> string list \<Rightarrow> bool \<Rightarrow> world \<Rightarrow> outcome" where
  "render_docTypes c s [] prettyLink w = (None, w)"
| "render_docTypes c s (docType # rest) prettyLink w =
     (case renderDocs c s docType (pandocDirs s) prettyLink w of
        (Some e, w') \<Rightarrow> (Some e, w')
      | (None, w') \<Rightarrow> render_docTypes c s rest prettyLink w')"

text \<open>
  \<open>render\<close> with \<open>reloader=False\<close>. The listings \<open>self.templates\<close> and
  \<open>self.staticFiles\<close> are evaluated when their stage begins, on the state the previous stage
  has left.
\<close>

definition render :: "collab \<Rightarrow> site \<Rightarrow> bool \<Rightarrow> world \<Rightarrow> outcome" where
  "render c s prettyLink w =
     (let w0 = mkdir_p c (buildDir s) w
      in case render_docTypes c s (pandocTypes s) prettyLink w0 of
           (Some e, w1) \<Rightarrow> (Some e, w1)
         | (None, w1) \<Rightarrow>
             (case renderTemplates c s (templates c s w1) w1 of
                (Some e, w2) \<Rightarrow> (Some e, w2)
              | (None, w2) \<Rightarrow> copyStatic c s (staticFiles c s w2) w2))"

subsection \<open>The stages of the build, read off the trace\<close>

text \<open>
  The file-system calls each stage can make: the document stage creates directories and
  writes wrapped documents, the page stage creates directories and dumps rendered
  templates, the static stage creates directories and copies files.
\<close>

fun is_doc_event :: "event \<Rightarrow> bool" where
  "is_doc_event (Mkdir d) = True"
| "is_doc_event (Write p content) = True"
| "is_doc_event e = False"

fun is_page_event :: "event \<Rightarrow> bool" where
  "is_page_event (Mkdir d) = True"
| "is_page_event (Dump p content) = True"
| "is_page_event e = False"

fun is_static_event :: "event \<Rightarrow> bool" where
  "is_static_event (Mkdir d) = True"
| "is_static_event (Copy src dst content) = True"
| "is_static_event e = False"

section \<open>Operations on the state\<close>

text \<open>
  Every loop of the source runs its body on the state the previous turn has left and ends
  at the first exception. \<open>then_do\<close> is that sequencing of two operations and \<open>for_each\<close>
  the loop over a list; the loops of the build are instances of it.
\<close>

definition then_do :: "(world \<Rightarrow> outcome) \<Rightarrow> (world \<Rightarrow> outcome) \<Rightarrow> world \<Rightarrow> outcome" where
  "then_do f g w = (case f w of (Some e, w') \<Rightarrow> (Some e, w') | (None, w') \<Rightarrow> g w')"

fun for_each :: "('a \<Rightarrow> world \<Rightarrow> outcome) \<Rightarrow> 'a list \<Rightarrow> world \<Rightarrow> outcome" where
  "for_each f [] w = (None, w)"
| "for_each f (x # xs) w =
     (case f x w of (Some e, w') \<Rightarrow> (Some e, w') | (None, w') \<Rightarrow> for_each f xs w')"

text \<open>The three stages of \<open>render\<close>, each with the listing it evaluates when it begins.\<close>

definition document_stage :: "collab \<Rightarrow> site \<Rightarrow> bool \<Rightarrow> world \<Rightarrow> outcome" where
  "document_stage c s prettyLink w = render_docTypes c s (pandocTypes s) prettyLink w"

definition page_stage :: "collab \<Rightarrow> site \<Rightarrow> world \<Rightarrow> outcome" where
  "page_stage c s w = renderTemplates c s (templates c s w) w"

definition static_stage :: "collab \<Rightarrow> site \<Rightarrow> world \<Rightarrow> outcome" where
  "static_stage c s w = copyStatic c s (staticFiles c s w) w"

text \<open>An operation makes only file-system calls of the kind \<open>P\<close>.\<close>

definition emits :: "(event \<Rightarrow> bool) \<Rightarrow> (world \<Rightarrow> outcome) \<Rightarrow> bool" where
  "emits P f = (\<forall>w. \<exists>evs. trace (snd (f w)) = trace w @ evs \<and> list_all P evs)"

section \<open>Repeating a build\<close>

text \<open>
  What a sequence of file-system calls has done: the locations written, with their
  content (\<open>writes_of\<close>), the directories created (\<open>mkdirs_of\<close>), the locations of the
  rendered pages and of the copies (\<open>outputs_of\<close>), and the locations of the copies alone
  (\<open>copies_of\<close>). \<open>apply_writes\<close> carries the writes out on a file table.
\<close>

fun writes_of :: "collab \<Rightarrow> event list \<Rightarrow> (node \<times> string) list" where
  "writes_of c [] = []"
| "writes_of c (Write p content # es) = (resolve c p, content) # writes_of c es"
| "writes_of c (Dump p content # es) = (resolve c p, content) # writes_of c es"
| "writes_of c (Copy src dst content # es) = (resolve c dst, content) # writes_of c es"
| "writes_of c (Mkdir d # es) = writes_of c es"

fun mkdirs_of :: "collab \<Rightarrow> event list \<Rightarrow> node list" where
  "mkdirs_of c [] = []"
| "mkdirs_of c (Mkdir d # es) = resolve c d # mkdirs_of c es"
| "mkdirs_of c (e # es) = mkdirs_of c es"

fun outputs_of :: "collab \<Rightarrow> event list \<Rightarrow> node list" where
  "outputs_of c [] = []"
| "outputs_of c (Dump p content # es) = resolve c p # outputs_of c es"
| "outputs_of c (Copy src dst content # es) = resolve c dst # outputs_of c es"
| "outputs_of c (e # es) = outputs_of c es"

fun copies_of :: "collab \<Rightarrow> event list \<Rightarrow> node list" where
  "copies_of c [] = []"
| "copies_of c (Copy src dst content # es) = resolve c dst # copies_of c es"
| "copies_of c (e # es) = copies_of c es"

fun apply_writes :: "(node \<times> string) list \<Rightarrow> (node \<times> string) list \<Rightarrow> (node \<times> string) list" where
  "apply_writes [] al = al"
| "apply_writes ((k, content) # ws) al = apply_writes ws (AList.update k content al)"

text \<open>
  Two file tables agree on a set of locations when they list the same locations of the
  set, in the same order, with the same content.
\<close>

definition agree :: "(node \<Rightarrow> bool) \<Rightarrow> (node \<times> string) list \<Rightarrow> (node \<times> string) list \<Rightarrow> bool" where
  "agree R al bl =
     (filter R (map fst al) = filter R (map fst bl)
      \<and> (\<forall>q. R q \<longrightarrow> map_of al q = map_of bl q))"

text \<open>
  What each stage reads. The document stage reads the template each document directory
  requires and every file that the \<open>glob\<close> of a document directory and a document type
  matches. The page stage and both listings read the template root and what lies below
  it. The static stage reads the file \<open>join(os.getcwd(), name)\<close> for the names that
  \<open>isStatic\<close> accepts, which are the prefixes of the first static directory.
\<close>

definition doc_input :: "collab \<Rightarrow> site \<Rightarrow> node \<Rightarrow> bool" where
  "doc_input c s k =
     list_ex (\<lambda>p. k = resolve c (join (templatePath s) (docTemplate_of p))
                 \<or> list_ex (\<lambda>docType. glob_match c (join (getcwd c) p) docType k)
                      (pandocTypes s))
       (pandocDirs s)"

definition under_templates :: "collab \<Rightarrow> site \<Rightarrow> node \<Rightarrow> bool" where
  "under_templates c s k =
     (take (length (resolve c (templatePath s))) k = resolve c (templatePath s))"

definition static_source :: "collab \<Rightarrow> site \<Rightarrow> node \<Rightarrow> bool" where
  "static_source c s k =
     (case staticDirs s of
        [] \<Rightarrow> False
      | d # rest \<Rightarrow>
          list_ex (\<lambda>i. k = resolve c (join (getcwd c) (take i d))) [0..<Suc (length d)])"

text \<open>
  The state \<open>u\<close> has no file and no directory that the state \<open>F\<close> lacks; and an operation
  ended within \<open>F\<close>, reaching all of \<open>F\<close> if it ended with an exception.
\<close>

definition within :: "world \<Rightarrow> world \<Rightarrow> bool" where
  "within u F = (fst ` set (files u) \<subseteq> fst ` set (files F) \<and> set (dirs u) \<subseteq> set (dirs F))"

definition bounded :: "world \<Rightarrow> outcome \<Rightarrow> bool" where
  "bounded F ou = (within (snd ou) F \<and> (fst ou \<noteq> None \<longrightarrow> within F (snd ou)))"

text \<open>
  \<open>effect_ok\<close>: the trace of an operation accounts for all it does to the files and the
  directories. \<open>sim_ok R F\<close>: the operation reads the files at the locations \<open>R\<close> only.
  Run from a state \<open>v\<close> that agrees on \<open>R\<close> with the state \<open>u\<close> and has the files and the
  directories of \<open>F\<close>, where the run from \<open>u\<close> ends within \<open>F\<close>, it ends as the run from
  \<open>u\<close> does, with the same calls, the final tables agree on \<open>R\<close>, and the final state
  still has the files and the directories of \<open>F\<close>.
\<close>

definition effect_ok :: "collab \<Rightarrow> (world \<Rightarrow> outcome) \<Rightarrow> bool" where
  "effect_ok c f =
     (\<forall>w. \<exists>evs. trace (snd (f w)) = trace w @ evs
              \<and> files (snd (f w)) = apply_writes (writes_of c evs) (files w)
              \<and> set (dirs (snd (f w))) = set (dirs w) \<union> set (mkdirs_of c evs))"

definition sim_ok :: "(node \<Rightarrow> bool) \<Rightarrow> world \<Rightarrow> (world \<Rightarrow> outcome) \<Rightarrow> bool" where
  "sim_ok R F f =
     (\<forall>u v. agree R (files u) (files v) \<longrightarrow> within v F \<longrightarrow> within F v \<longrightarrow> bounded F (f u) \<longrightarrow>
        (\<exists>evs. fst (f v) = fst (f u)
              \<and> trace (snd (f u)) = trace u @ evs \<and> trace (snd (f v)) = trace v @ evs
              \<and> agree R (files (snd (f u))) (files (snd (f v)))
              \<and> within (snd (f v)) F \<and> within F (snd (f v))))"

section \<open>Building the site object\<close>

text \<open>\<open>PANDOC_TYPES\<close> of \<open>config.py\<close>.\<close>

definition PANDOC_TYPES :: "string list" where
  "PANDOC_TYPES = [''org'']"

text \<open>
  \<open>make\<close> builds the site from its arguments. It does not forward \<open>pandocTypes\<close> to the
  constructor, whose default \<open>PANDOC_TYPES\<close> is therefore used.
\<close>

definition make :: "path \<Rightarrow> path \<Rightarrow> string list \<Rightarrow> string list \<Rightarrow> string list \<Rightarrow> string \<Rightarrow> bool \<Rightarrow> site" where
  "make tp bd pdirs ptypes sdirs enc verb =
     \<lparr>encoding = enc, templatePath = tp, buildDir = bd, staticDirs = sdirs,
      pandocDirs = pdirs, pandocTypes = PANDOC_TYPES, verbose = verb, buildPath = None\<rparr>"

section \<open>A small site used for concrete evaluation\<close>

definition demo_collab :: collab where
  "demo_collab =
     \<lparr>getcwd = ''/home/site'',
      pandoc = (\<lambda>text fmt. ''<p>'' @ text @ ''</p>''),
      jinja = (\<lambda>enc tree n. case tree n of None \<Rightarrow> [] | Some src \<Rightarrow> src)\<rparr>"

definition demo_site :: "string list \<Rightarrow> string list \<Rightarrow> site" where
  "demo_site sdirs pdirs = make ''templates'' ''build'' pdirs [''org''] sdirs ''utf8'' True"

definition demo_world :: world where
  "demo_world =
     \<lparr>files = [([''home'', ''site'', ''templates'', ''index.html''], ''<h1>home</h1>''),
               ([''home'', ''site'', ''templates'', ''_base.html''], ''<html></html>''),
               ([''home'', ''site'', ''templates'', ''_posts.html''], ''<article></article>''),
               ([''home'', ''site'', ''posts'', ''hello.org''], ''* Hello'')],
      dirs = [],
      trace = []\<rparr>"

text \<open>The small site with the directory \<open>templates/posts\<close> already there.\<close>

definition posts_world :: world where
  "posts_world = demo_world\<lparr>dirs := [[''home'', ''site'', ''templates'', ''posts'']]\<rparr>"

text \<open>A template root holding the private file \<open>.c\<close> and the module \<open>_c\<close>.\<close>

definition hidden_world :: world where
  "hidden_world =
     \<lparr>files = [([''home'', ''site'', ''templates'', ''index.html''], ''<h1>home</h1>''),
               ([''home'', ''site'', ''templates'', ''.c''], ''secret''),
               ([''home'', ''site'', ''templates'', ''_c''], ''module'')],
      dirs = [],
      trace = []\<rparr>"

text \<open>
  A site whose \<open>buildPath\<close> attribute has been set, with a static file: the template root
  lists \<open>css\<close>, and \<open>copyStatic\<close> reads it from the working directory.
\<close>

definition copy_site :: site where
  "copy_site = (demo_site [''css''] [''posts''])\<lparr>buildPath := Some ''build''\<rparr>"

definition copy_world :: world where
  "copy_world =
     \<lparr>files = [([''home'', ''site'', ''templates'', ''index.html''], ''<h1>home</h1>''),
               ([''home'', ''site'', ''templates'', ''_posts.html''], ''<article></article>''),
               ([''home'', ''site'', ''templates'', ''css''], ''body {}''),
               ([''home'', ''site'', ''css''], ''p {}''),
               ([''home'', ''site'', ''posts'', ''hello.org''], ''* Hello'')],
      dirs = [],
      trace = []\<rparr>"

text \<open>
  A site as \<open>cli.py\<close> builds it from \<open>--src=site --out=site/out\<close>: the template root is
  made absolute, the output root is not, and the output root lies inside the template
  root.
\<close>

definition nested_site :: site where
  "nested_site = make ''/home/site/site'' ''site/out'' [] [''org''] [] ''utf8'' True"

definition nested_world :: world where
  "nested_world =
     \<lparr>files = [([''home'', ''site'', ''site'', ''index.html''], ''<h1>home</h1>'')],
      dirs = [],
      trace = []\<rparr>"

section \<open>Unfolding the definitions\<close>

lemmas demo_defs = demo_collab_def demo_site_def demo_world_def make_def PANDOC_TYPES_def

lemmas path_defs =
  join_def startswith_def endswith_def basename_def dirname_def rstrip_sep_def sep_def stem_def
  components_def resolve_def plain_def

lemmas cls_defs = isModule_def isPrivate_def isStatic_def isPandoc_def isTemplate_def

lemmas fs_defs =
  isfile_def isdir_def is_under_def mkdir_p_def open_error_def write_text_def dump_def
  copy2_def glob_match_def glob_def relative_name_def list_templates_def
  split_template_path_def template_source_def List.map_filter_def

lemmas build_defs =
  ensureParent_def platify_def newFilepath_def docTemplate_of_def renderDoc_file_def
  renderDoc_def renderTemplate_def copyStatic_file_def render_def templates_def
  templateNames_def staticFiles_def getTemplate_def

section \<open>Path segments\<close>

lemma split_on_not_Nil: "split_on c p \<noteq> []"
  by (induction p) (auto split: list.splits)

lemma seg_from_Nil: "seg_from b c [] = False"
  by (simp add: seg_from_def)

lemma seg_from_Cons:
  "seg_from b c (x # xs) = ((b \<and> x = c) \<or> seg_from (x = sep) c xs)"
proof
  assume "seg_from b c (x # xs)"
  then obtain i where i: "i < Suc (length xs)" "(x # xs) ! i = c"
      "if i = 0 then b else (x # xs) ! (i - 1) = sep"
    by (auto simp: seg_from_def)
  show "(b \<and> x = c) \<or> seg_from (x = sep) c xs"
  proof (cases i)
    case 0
    with i show ?thesis by simp
  next
    case (Suc j)
    with i have "j < length xs" "xs ! j = c" "if j = 0 then x = sep else xs ! (j - 1) = sep"
      by (auto simp: nth_Cons split: nat.splits)
    then have "seg_from (x = sep) c xs"
      unfolding seg_from_def by blast
    then show ?thesis ..
  qed
next
  assume "(b \<and> x = c) \<or> seg_from (x = sep) c xs"
  then show "seg_from b c (x # xs)"
  proof
    assume "b \<and> x = c"
    then show ?thesis
      unfolding seg_from_def by (intro exI[of _ 0]) simp
  next
    assume "seg_from (x = sep) c xs"
    then obtain j where j: "j < length xs" "xs ! j = c"
        "if j = 0 then x = sep else xs ! (j - 1) = sep"
      by (auto simp: seg_from_def)
    then show ?thesis
      unfolding seg_from_def
      by (intro exI[of _ "Suc j"]) (auto simp: nth_Cons split: nat.splits)
  qed
qed

lemma segment_starts_with_seg_from: "segment_starts_with c p = seg_from True c p"
proof -
  have "segment_starts_with c p
          = (\<exists>i<length p. p ! i = c \<and> (i = 0 \<or> p ! (i - 1) = sep))"
    unfolding segment_starts_with_def list_ex_iff
    by (simp only: set_upt Bex_def atLeastLessThan_iff le0 simp_thms)
  also have "\<dots> = seg_from True c p"
    unfolding seg_from_def by (intro ex_cong) auto
  finally show ?thesis .
qed

lemma startswith_single:
  "startswith [] [c] = False" "startswith (x # w) [c] = (x = c)"
  by (simp_all add: startswith_def)

lemma any_split_on:
  assumes "c \<noteq> sep"
  shows "list_ex (\<lambda>r. startswith r [c]) (split_on sep p) = seg_from True c p"
    and "list_ex (\<lambda>r. startswith r [c]) (tl (split_on sep p)) = seg_from False c p"
  using assms
proof (induction p)
  case Nil
  { case 1 show ?case by (simp add: seg_from_Nil startswith_single) }
  { case 2 show ?case by (simp add: seg_from_Nil) }
next
  case (Cons x xs)
  obtain w ws where s: "split_on sep xs = w # ws"
    using split_on_not_Nil[of sep xs] by (cases "split_on sep xs") auto
  { case 1
    with Cons s show ?case
      by (cases "x = sep") (simp_all add: seg_from_Cons startswith_single) }
  { case 2
    with Cons s show ?case
      by (cases "x = sep") (simp_all add: seg_from_Cons startswith_single) }
qed

lemma isModule_iff: "isModule p = segment_starts_with (CHR ''_'') p"
proof -
  have "CHR ''_'' \<noteq> sep" by (simp add: sep_def)
  from any_split_on(1)[OF this] show ?thesis
    by (simp add: isModule_def segment_starts_with_seg_from)
qed

lemma isPrivate_iff: "isPrivate p = segment_starts_with (CHR ''.'') p"
proof -
  have "CHR ''.'' \<noteq> sep" by (simp add: sep_def)
  from any_split_on(1)[OF this] show ?thesis
    by (simp add: isPrivate_def segment_starts_with_seg_from)
qed

section \<open>Classification\<close>

lemma isStatic_first_only:
  "isStatic s n = (case staticDirs s of [] \<Rightarrow> False | d # rest \<Rightarrow> startswith d n)"
  by (simp add: isStatic_def split: list.splits)

lemma isPandoc_first_only:
  "isPandoc s n = (case pandocDirs s of [] \<Rightarrow> False | d # rest \<Rightarrow> startswith d n)"
  by (simp add: isPandoc_def split: list.splits)

text \<open>
  Claim C1. \<open>isStatic\<close> and \<open>isPandoc\<close> are meant to hold exactly for the paths that start
  with one of the configured prefixes, every prefix being tried. The source compares the
  first configured directory only, and in the opposite direction: with the static
  directories \<open>css\<close> and \<open>js\<close> it rejects \<open>js\<close>, which lies under the second prefix; with the
  single directory \<open>css\<close> it rejects \<open>css/site.css\<close> and accepts the path \<open>c\<close>. \<open>isPandoc\<close>
  behaves in the same way.
\<close>

theorem C1_only_first_prefix_reversed:
  "isStatic (demo_site [''css'', ''js''] []) ''js'' = False
   \<and> lies_under_spec [''css'', ''js''] ''js'' = True
   \<and> isStatic (demo_site [''css''] []) ''css/site.css'' = False
   \<and> lies_under_spec [''css''] ''css/site.css'' = True
   \<and> isStatic (demo_site [''css''] []) ''c'' = True
   \<and> lies_under_spec [''css''] ''c'' = False
   \<and> isPandoc (demo_site [] [''pages'', ''posts'']) ''posts'' = False
   \<and> lies_under_spec [''pages'', ''posts''] ''posts'' = True"
  by (simp add: isStatic_def isPandoc_def demo_site_def make_def lies_under_spec_def
        startswith_def)

text \<open>
  Claim C3. A path with a segment starting with a dot is meant to be in none of the
  categories Page, Static, Module and Document; the source says of private files that
  they are neither rendered nor used as template modules. The path \<open>_a/.b\<close> is private
  and \<open>isModule\<close> accepts it, so that \<open>getDependencies\<close> answers a change of it with every
  page of the site, as for a template module. The private file \<open>.c\<close> of a template root
  is accepted by \<open>isStatic\<close> when the first static directory is \<open>.css\<close>, and \<open>staticFiles\<close>
  lists it among the files to copy.
\<close>

theorem C3_private_path_used_as_module:
  "segment_starts_with (CHR ''.'') ''_a/.b''
   \<and> isPrivate ''_a/.b'' = True
   \<and> isModule ''_a/.b'' = True
   \<and> getDependencies demo_collab (demo_site [] []) demo_world ''_a/.b''
       = Inr [Tmpl (Template ''index.html'')]
   \<and> isPrivate ''.c'' = True
   \<and> isStatic (demo_site [''.css''] []) ''.c'' = True
   \<and> staticFiles demo_collab (demo_site [''.css''] []) hidden_world = [''.c'']"
proof -
  have "segment_starts_with (CHR ''.'') ''_a/.b''"
    by (simp add: segment_starts_with_def sep_def upt_rec)
  moreover have "isPrivate ''_a/.b'' = True" "isModule ''_a/.b'' = True" "isPrivate ''.c'' = True"
    by (simp_all add: cls_defs sep_def startswith_def)
  moreover have "isStatic (demo_site [''.css''] []) ''.c'' = True"
    by (simp add: cls_defs demo_defs startswith_def)
  moreover have "getDependencies demo_collab (demo_site [] []) demo_world ''_a/.b''
       = Inr [Tmpl (Template ''index.html'')]"
    by (simp add: getDependencies_def build_defs fs_defs cls_defs demo_defs path_defs)
  moreover have "staticFiles demo_collab (demo_site [''.css''] []) hidden_world = [''.c'']"
    by (simp add: hidden_world_def build_defs fs_defs cls_defs demo_defs path_defs)
  ultimately show ?thesis by (intro conjI)
qed



text \<open>
  Claim C5. A path with a segment starting with an underscore is a Module and is not a
  Page, whatever the static and document directories are.
\<close>

theorem C5_underscore_is_module:
  assumes "segment_starts_with (CHR ''_'') p"
  shows "isModule p \<and> \<not> isTemplate s p"
  using assms by (simp add: isModule_iff isTemplate_def)

theorem C5_underscore_is_module_witness:
  "segment_starts_with (CHR ''_'') ''blog/_base.html''
   \<and> isModule ''blog/_base.html''
   \<and> \<not> isTemplate (demo_site [''css''] [''posts'']) ''blog/_base.html''"
proof -
  have h: "segment_starts_with (CHR ''_'') ''blog/_base.html''"
    by (simp add: segment_starts_with_def sep_def upt_rec)
  from C5_underscore_is_module[OF h, of "demo_site [''css''] [''posts'']"] h
  show ?thesis by simp
qed

section \<open>Dependencies of a changed file\<close>

text \<open>
  A Module depends on every Page, a Page that exists on itself. The last branch of
  \<open>getDependencies\<close> is never taken: a file that is neither a Module nor a Page gets
  itself as its only dependency.
\<close>

lemma getDependencies_module:
  "isModule f \<Longrightarrow> getDependencies c s w f = Inr (map (Tmpl \<circ> Template) (templateNames c s w))"
  by (simp add: getDependencies_def templates_def)

lemma getDependencies_remaining:
  "\<not> isModule f \<Longrightarrow> \<not> isTemplate s f \<Longrightarrow> getDependencies c s w f = Inr [Filename f]"
  by (simp add: getDependencies_def isPandoc_method_truth_def)

text \<open>
  Claim C2. The dependency set of a changed file that is neither a Module, a Page, a
  Static file nor a Document is meant to be empty. For the private file \<open>.git/config\<close>,
  with no static and no document directory configured, the source returns the file
  itself.
\<close>

theorem C2_private_file_depends_on_itself:
  "classify_spec (demo_site [] []) ''.git/config'' = Private
   \<and> isStatic (demo_site [] []) ''.git/config'' = False
   \<and> isPandoc (demo_site [] []) ''.git/config'' = False
   \<and> getDependencies demo_collab (demo_site [] []) demo_world ''.git/config''
       = Inr [Filename ''.git/config'']"
  by (simp add: getDependencies_def classify_spec_def demo_defs cls_defs path_defs
        isPandoc_method_truth_def)

section \<open>Replaying writes on a file table\<close>

lemma for_each_Cons: "for_each f (x # xs) = then_do (f x) (for_each f xs)"
  by (rule ext) (simp add: then_do_def)

lemma writes_of_append: "writes_of c (xs @ ys) = writes_of c xs @ writes_of c ys"
  by (induction xs rule: writes_of.induct) auto

lemma mkdirs_of_append: "mkdirs_of c (xs @ ys) = mkdirs_of c xs @ mkdirs_of c ys"
  by (induction xs rule: mkdirs_of.induct) auto

lemma outputs_of_append: "outputs_of c (xs @ ys) = outputs_of c xs @ outputs_of c ys"
  by (induction xs rule: outputs_of.induct) auto

lemma copies_of_append: "copies_of c (xs @ ys) = copies_of c xs @ copies_of c ys"
  by (induction xs rule: copies_of.induct) auto

lemma apply_writes_append: "apply_writes (xs @ ys) al = apply_writes ys (apply_writes xs al)"
  by (induction xs arbitrary: al) auto

lemma keys_update:
  "map fst (AList.update p content al)
     = (if p \<in> fst ` set al then map fst al else map fst al @ [p])"
  by (induction al) auto

lemma map_of_apply_writes: "map_of (apply_writes ws al) = map_of al ++ map_of (rev ws)"
proof (induction ws arbitrary: al)
  case Nil
  then show ?case by simp
next
  case (Cons a ws)
  obtain p content where a: "a = (p, content)" by (cases a)
  have "map_of (apply_writes (a # ws) al) = map_of (apply_writes ws (AList.update p content al))"
    using a by simp
  also have "\<dots> = map_of (AList.update p content al) ++ map_of (rev ws)"
    by (rule Cons.IH)
  also have "\<dots> = (map_of al)(p \<mapsto> content) ++ map_of (rev ws)"
    by (simp only: update_conv')
  also have "\<dots> = map_of al ++ map_of (rev (a # ws))"
    using a by (auto simp: fun_eq_iff map_add_def split: option.splits)
  finally show ?case .
qed

lemma keys_apply_writes_set:
  "fst ` set (apply_writes ws al) = fst ` set al \<union> fst ` set ws"
proof (induction ws arbitrary: al)
  case Nil
  then show ?case by simp
next
  case (Cons a ws)
  obtain p content where a: "a = (p, content)" by (cases a)
  show ?case
    using Cons.IH[of "AList.update p content al"] a by (auto simp: dom_update)
qed

lemma keys_apply_writes_present:
  "fst ` set ws \<subseteq> fst ` set al \<Longrightarrow> map fst (apply_writes ws al) = map fst al"
proof (induction ws arbitrary: al)
  case Nil
  then show ?case by simp
next
  case (Cons a ws)
  obtain p content where a: "a = (p, content)" by (cases a)
  from Cons.prems a have p: "p \<in> fst ` set al" by auto
  then have k: "map fst (AList.update p content al) = map fst al"
    by (simp add: keys_update)
  have "fst ` set (AList.update p content al) = set (map fst (AList.update p content al))"
    by simp
  with k Cons.prems have "fst ` set ws \<subseteq> fst ` set (AList.update p content al)"
    by auto
  from Cons.IH[OF this] k a show ?case by simp
qed

lemma keys_apply_writes_filter:
  "\<forall>p\<in>fst ` set ws. \<not> R p \<Longrightarrow> filter R (map fst (apply_writes ws al)) = filter R (map fst al)"
proof (induction ws arbitrary: al)
  case Nil
  then show ?case by simp
next
  case (Cons a ws)
  obtain p content where a: "a = (p, content)" by (cases a)
  from Cons.prems a have p: "\<not> R p" by auto
  then have k: "filter R (map fst (AList.update p content al)) = filter R (map fst al)"
    by (simp add: keys_update)
  from Cons.prems have "\<forall>p\<in>fst ` set ws. \<not> R p" by auto
  from Cons.IH[OF this, of "AList.update p content al"] k a show ?case by simp
qed

lemma map_of_rev_None: "q \<notin> fst ` set ws \<Longrightarrow> map_of (rev ws) q = None"
  by (simp add: map_of_eq_None_iff)

lemma agree_apply_writes_outside:
  assumes "\<forall>p\<in>fst ` set ws. \<not> R p"
  shows "agree R al (apply_writes ws al)"
  unfolding agree_def
proof (intro conjI allI impI)
  show "filter R (map fst al) = filter R (map fst (apply_writes ws al))"
    using keys_apply_writes_filter[OF assms] by simp
next
  fix q assume "R q"
  with assms have "q \<notin> fst ` set ws" by auto
  then show "map_of al q = map_of (apply_writes ws al) q"
    by (simp add: map_of_apply_writes map_add_def map_of_rev_None)
qed

lemma agree_refl: "agree R al al"
  by (simp add: agree_def)

lemma agree_mem:
  assumes "agree R al bl" "R p"
  shows "p \<in> fst ` set al \<longleftrightarrow> p \<in> fst ` set bl"
proof -
  have "p \<in> set (filter R (map fst al)) \<longleftrightarrow> p \<in> set (filter R (map fst bl))"
    using assms(1) by (simp add: agree_def)
  with assms(2) show ?thesis by simp
qed

lemma agree_update:
  assumes "agree R al bl"
  shows "agree R (AList.update p content al) (AList.update p content bl)"
proof (cases "R p")
  case True
  from agree_mem[OF assms True] assms show ?thesis
    by (auto simp: agree_def keys_update update_conv')
next
  case False
  with assms show ?thesis
    by (auto simp: agree_def keys_update update_conv')
qed

lemma agree_lookup: "agree R al bl \<Longrightarrow> R q \<Longrightarrow> map_of al q = map_of bl q"
  by (simp add: agree_def)

lemma agree_filter:
  assumes "agree R al bl" and "\<forall>q. M q \<longrightarrow> R q"
  shows "filter M (map fst al) = filter M (map fst bl)"
proof -
  have "filter M xs = filter M (filter R xs)" for xs
    using assms(2) by (induction xs) auto
  with assms(1) show ?thesis
    unfolding agree_def by metis
qed

lemma agree_replay:
  assumes "\<forall>p\<in>fst ` set ws2. \<not> R p"
  shows "agree R (apply_writes ws1 al) (apply_writes ws1 (apply_writes ws2 (apply_writes ws1 al)))"
  unfolding agree_def
proof (intro conjI allI impI)
  let ?a = "apply_writes ws1 al"
  let ?b = "apply_writes ws2 ?a"
  have "fst ` set ws1 \<subseteq> fst ` set ?b"
    by (simp add: keys_apply_writes_set) blast
  then have "map fst (apply_writes ws1 ?b) = map fst ?b"
    by (rule keys_apply_writes_present)
  then show "filter R (map fst ?a) = filter R (map fst (apply_writes ws1 ?b))"
    using keys_apply_writes_filter[OF assms, of ?a] by simp
next
  fix q assume "R q"
  with assms have "q \<notin> fst ` set ws2" by auto
  then have "map_of (rev ws2) q = None" by (rule map_of_rev_None)
  then show "map_of (apply_writes ws1 al) q
      = map_of (apply_writes ws1 (apply_writes ws2 (apply_writes ws1 al))) q"
    by (simp add: map_of_apply_writes map_add_def split: option.splits)
qed

lemma apply_twice:
  "map fst (apply_writes ws (apply_writes ws al)) = map fst (apply_writes ws al)"
  "map_of (apply_writes ws (apply_writes ws al)) = map_of (apply_writes ws al)"
proof -
  have "fst ` set ws \<subseteq> fst ` set (apply_writes ws al)"
    by (simp add: keys_apply_writes_set)
  then show "map fst (apply_writes ws (apply_writes ws al)) = map fst (apply_writes ws al)"
    by (rule keys_apply_writes_present)
  show "map_of (apply_writes ws (apply_writes ws al)) = map_of (apply_writes ws al)"
    by (simp add: map_of_apply_writes map_add_def fun_eq_iff split: option.splits)
qed



lemma within_refl: "within u u"
  by (simp add: within_def)

lemma withinD1: "within u v \<Longrightarrow> fst ` set (files u) \<subseteq> fst ` set (files v)"
  unfolding within_def by (rule conjunct1)

lemma withinD2: "within u v \<Longrightarrow> set (dirs u) \<subseteq> set (dirs v)"
  unfolding within_def by (rule conjunct2)

lemma within_trans:
  assumes "within u v" "within v w"
  shows "within u w"
  unfolding within_def
  using subset_trans[OF withinD1[OF assms(1)] withinD1[OF assms(2)]]
    subset_trans[OF withinD2[OF assms(1)] withinD2[OF assms(2)]] by (rule conjI)

lemma isdir_iff:
  "isdir w d \<longleftrightarrow> d = [] \<or> d \<in> set (dirs w)
     \<or> (\<exists>k\<in>set (dirs w) \<union> fst ` set (files w). is_under d k)"
  by (simp add: isdir_def list_ex_iff Bex_def)

lemma isdir_mono:
  assumes "within u v" "isdir u d"
  shows "isdir v d"
proof -
  note s = withinD2[OF assms(1)] withinD1[OF assms(1)]
  from assms(2) consider "d = []" | "d \<in> set (dirs u)"
    | k where "k \<in> set (dirs u) \<union> fst ` set (files u)" "is_under d k"
    unfolding isdir_iff by blast
  then show ?thesis
  proof cases
    case 1
    then show ?thesis by (simp add: isdir_iff)
  next
    case 2
    with s show ?thesis unfolding isdir_iff by blast
  next
    case 3
    with s have "k \<in> set (dirs v) \<union> fst ` set (files v)" by blast
    with 3 show ?thesis unfolding isdir_iff by blast
  qed
qed

lemma isdir_same:
  assumes "within u v" "within v u"
  shows "isdir u d = isdir v d"
  using isdir_mono[OF assms(1), of d] isdir_mono[OF assms(2), of d] by blast

lemma open_error_same:
  assumes "within u v" "within v u"
  shows "open_error c u p = open_error c v p"
proof -
  have "isdir u (butlast (resolve c p)) = isdir v (butlast (resolve c p))"
    using assms by (rule isdir_same)
  then show ?thesis by (simp add: open_error_def)
qed

lemma open_error_mono:
  assumes "within u v" "open_error c u p = None"
  shows "open_error c v p = None"
proof -
  from assms(2) have "resolve c p \<noteq> []" "isdir u (butlast (resolve c p))"
    by (auto simp: open_error_def split: if_splits)
  with isdir_mono[OF assms(1)] show ?thesis
    by (simp add: open_error_def)
qed



lemma effect_within:
  assumes "effect_ok c f"
  shows "within w (snd (f w))"
proof -
  from assms obtain evs where
    "files (snd (f w)) = apply_writes (writes_of c evs) (files w)"
    "set (dirs (snd (f w))) = set (dirs w) \<union> set (mkdirs_of c evs)"
    unfolding effect_ok_def by blast
  then show ?thesis
    by (simp add: within_def keys_apply_writes_set)
qed

lemma effect_then_do:
  assumes "effect_ok c f" "effect_ok c g"
  shows "effect_ok c (then_do f g)"
  unfolding effect_ok_def
proof
  fix w
  obtain r1 w1 where f: "f w = (r1, w1)" by (cases "f w")
  from assms(1) f obtain e1 where e1: "trace w1 = trace w @ e1"
     "files w1 = apply_writes (writes_of c e1) (files w)"
     "set (dirs w1) = set (dirs w) \<union> set (mkdirs_of c e1)"
    unfolding effect_ok_def by (metis snd_conv)
  show "\<exists>evs. trace (snd (then_do f g w)) = trace w @ evs
              \<and> files (snd (then_do f g w)) = apply_writes (writes_of c evs) (files w)
              \<and> set (dirs (snd (then_do f g w))) = set (dirs w) \<union> set (mkdirs_of c evs)"
  proof (cases r1)
    case (Some e)
    with f e1 show ?thesis by (auto simp: then_do_def)
  next
    case None
    from assms(2) obtain e2 where e2: "trace (snd (g w1)) = trace w1 @ e2"
     "files (snd (g w1)) = apply_writes (writes_of c e2) (files w1)"
     "set (dirs (snd (g w1))) = set (dirs w1) \<union> set (mkdirs_of c e2)"
      unfolding effect_ok_def by blast
    have "then_do f g w = g w1" using f None by (simp add: then_do_def)
    with e1 e2 show ?thesis
      by (intro exI[of _ "e1 @ e2"])
         (auto simp: writes_of_append apply_writes_append mkdirs_of_append)
  qed
qed

lemma effect_done: "effect_ok c (\<lambda>w. (r, w))"
  unfolding effect_ok_def by (intro allI exI[of _ "[]"]) simp

lemma effect_for_each:
  assumes "\<forall>x\<in>set xs. effect_ok c (f x)"
  shows "effect_ok c (for_each f xs)"
  using assms
proof (induction xs)
  case Nil
  have "for_each f [] = (\<lambda>w. (None, w))" by (rule ext) simp
  then show ?case by (simp add: effect_done)
next
  case (Cons x xs)
  then show ?case by (simp only: for_each_Cons) (auto intro: effect_then_do)
qed

lemma sim_done: "sim_ok R F (\<lambda>w. (r, w))"
  unfolding sim_ok_def by (intro allI impI exI[of _ "[]"]) simp

lemma sim_then_do:
  assumes f: "sim_ok R F f" and g: "sim_ok R F g" and eg: "effect_ok c g"
  shows "sim_ok R F (then_do f g)"
  unfolding sim_ok_def
proof (intro allI impI)
  fix u v
  assume a: "agree R (files u) (files v)" and vF: "within v F" and Fv: "within F v"
     and b: "bounded F (then_do f g u)"
  obtain r1 u1 where fu: "f u = (r1, u1)" by (cases "f u")
  have bf: "bounded F (f u)"
  proof (cases r1)
    case (Some e)
    with fu b show ?thesis by (simp add: then_do_def)
  next
    case None
    then have t: "then_do f g u = g u1" using fu by (simp add: then_do_def)
    have "within u1 (snd (g u1))" using eg by (rule effect_within)
    moreover have "within (snd (g u1)) F" using b t by (simp add: bounded_def)
    ultimately have "within u1 F" by (rule within_trans)
    with fu None show ?thesis by (simp add: bounded_def)
  qed
  from f a vF Fv bf obtain e1 where e1: "fst (f v) = fst (f u)"
      "trace (snd (f u)) = trace u @ e1" "trace (snd (f v)) = trace v @ e1"
      "agree R (files (snd (f u))) (files (snd (f v)))"
      "within (snd (f v)) F" "within F (snd (f v))"
    unfolding sim_ok_def by blast
  obtain r2 v1 where fv: "f v = (r2, v1)" by (cases "f v")
  with e1 fu have r2: "r2 = r1" by simp
  show "\<exists>evs. fst (then_do f g v) = fst (then_do f g u)
              \<and> trace (snd (then_do f g u)) = trace u @ evs
              \<and> trace (snd (then_do f g v)) = trace v @ evs
              \<and> agree R (files (snd (then_do f g u))) (files (snd (then_do f g v)))
              \<and> within (snd (then_do f g v)) F \<and> within F (snd (then_do f g v))"
  proof (cases r1)
    case (Some e)
    with fu fv r2 e1 show ?thesis
      by (intro exI[of _ e1]) (simp add: then_do_def)
  next
    case None
    then have tu: "then_do f g u = g u1" and tv: "then_do f g v = g v1"
      using fu fv r2 by (simp_all add: then_do_def)
    from b tu have bg: "bounded F (g u1)" by simp
    from e1 fu fv have a1: "agree R (files u1) (files v1)" "within v1 F" "within F v1"
      by simp_all
    from g a1 bg obtain e2 where e2: "fst (g v1) = fst (g u1)"
      "trace (snd (g u1)) = trace u1 @ e2" "trace (snd (g v1)) = trace v1 @ e2"
      "agree R (files (snd (g u1))) (files (snd (g v1)))"
      "within (snd (g v1)) F" "within F (snd (g v1))"
      unfolding sim_ok_def by blast
    with e1 fu fv tu tv show ?thesis
      by (intro exI[of _ "e1 @ e2"]) simp
  qed
qed

lemma sim_for_each:
  assumes "\<forall>x\<in>set xs. sim_ok R F (f x) \<and> effect_ok c (f x)"
  shows "sim_ok R F (for_each f xs)"
  using assms
proof (induction xs)
  case Nil
  have "for_each f [] = (\<lambda>w. (None, w))" by (rule ext) simp
  then show ?case by (simp add: sim_done)
next
  case (Cons x xs)
  then have "sim_ok R F (f x)" "sim_ok R F (for_each f xs)" "effect_ok c (for_each f xs)"
    by (auto intro: effect_for_each)
  then show ?case
    by (simp only: for_each_Cons) (rule sim_then_do)
qed


section \<open>Paths and locations\<close>

lemma split_on_append_sep: "split_on c (a @ c # b) = split_on c a @ split_on c b"
proof (induction a)
  case Nil
  then show ?case by simp
next
  case (Cons x a)
  then show ?case
    using split_on_not_Nil[of c a] by (cases "split_on c a") auto
qed

lemma split_on_no_sep: "c \<notin> set x \<Longrightarrow> split_on c x = [x]"
  by (induction x) auto

lemma split_on_snoc_sep: "split_on c (a @ [c]) = split_on c a @ [[]]"
  using split_on_append_sep[of c a "[]"] by simp

lemma plain_relative: "plain x \<Longrightarrow> \<not> startswith x [sep]"
  by (cases x) (auto simp: plain_def startswith_def)

lemma components_join_plain:
  assumes "plain x"
  shows "components (join a x) = components a @ [x]"
proof -
  have x: "split_on sep x = [x]" "x \<noteq> []" "x \<noteq> ''.''"
    using assms by (simp_all add: plain_def split_on_no_sep)
  have rel: "\<not> startswith x [sep]" using assms by (rule plain_relative)
  show ?thesis
  proof (cases "a = []")
    case True
    then show ?thesis using x rel by (simp add: join_def components_def)
  next
    case False
    show ?thesis
    proof (cases "last a = sep")
      case True
      with False obtain a' where a: "a = a' @ [sep]"
        by (metis append_butlast_last_id)
      have "join a x = a' @ sep # x" using a rel by (simp add: join_def)
      then show ?thesis
        using x a by (simp add: components_def split_on_append_sep split_on_snoc_sep)
    next
      case nl: False
      have "join a x = a @ sep # x" using False nl rel by (simp add: join_def)
      then show ?thesis
        using x by (simp add: components_def split_on_append_sep)
    qed
  qed
qed

lemma join_join_plain:
  assumes "plain x"
  shows "join a (join b x) = join (join a b) x"
proof -
  have rel: "\<not> startswith x [sep]" using assms by (rule plain_relative)
  have x: "x \<noteq> []" using assms by (simp add: plain_def)
  show ?thesis
  proof (cases "b = []")
    case True
    then show ?thesis using rel x by (auto simp: join_def startswith_def)
  next
    case False
    then obtain h t where b: "b = h # t" by (cases b) auto
    show ?thesis
      using rel x b by (auto simp: join_def startswith_def)
  qed
qed

lemma walk_append: "walk loc (xs @ ys) = walk (walk loc xs) ys"
  by (induction xs arbitrary: loc) auto

lemma resolve_join_plain:
  assumes "plain x"
  shows "resolve c (join a x) = resolve c a @ [x]"
proof -
  have "x \<noteq> ''..''" using assms by (simp add: plain_def)
  then show ?thesis
    unfolding resolve_def join_join_plain[OF assms] components_join_plain[OF assms] walk_append
    by simp
qed

lemma glob_resolve:
  assumes "glob_match c source docType k"
  shows "resolve c (join source (last k)) = k"
proof -
  from assms have k: "k \<noteq> []" "butlast k = resolve c source" "plain (last k)"
    by (simp_all add: glob_match_def)
  from resolve_join_plain[OF k(3), of c source] k(2)
  have "resolve c (join source (last k)) = butlast k @ [last k]" by simp
  also have "\<dots> = k" using k(1) by (rule append_butlast_last_id)
  finally show ?thesis .
qed

section \<open>The file-system calls\<close>

lemma within_mkdir: "within w (mkdir_p c d w)"
  by (auto simp: within_def mkdir_p_def)

lemma within_update:
  "within w (w\<lparr>files := AList.update k x (files w), trace := t\<rparr>)"
  by (auto simp: within_def dom_update)

lemma within_key: "within u F \<Longrightarrow> k \<in> fst ` set (files u) \<Longrightarrow> k \<in> fst ` set (files F)"
  unfolding within_def by blast

lemma within_dir: "within u F \<Longrightarrow> d \<in> set (dirs u) \<Longrightarrow> d \<in> set (dirs F)"
  unfolding within_def by blast

lemma within_update_both:
  assumes "within v F" "k \<in> fst ` set (files F)"
  shows "within (v\<lparr>files := AList.update k x (files v), trace := t\<rparr>) F"
  using assms by (auto simp: within_def dom_update)

lemma within_mkdir_both:
  assumes "within v F" "resolve c d \<in> set (dirs F)"
  shows "within (mkdir_p c d v) F"
  using assms by (auto simp: within_def mkdir_p_def)

subsection \<open>What a call does\<close>

lemma effect_mkdir: "effect_ok c (\<lambda>w. (None, mkdir_p c d w))"
  unfolding effect_ok_def by (intro allI exI[of _ "[Mkdir d]"]) (simp add: mkdir_p_def)

lemma effect_put:
  assumes "\<And>w. f w = (case open_error c w p of
                         Some e \<Rightarrow> (Some e, w)
                       | None \<Rightarrow> (None, w\<lparr>files := AList.update (resolve c p) x (files w),
                                          trace := trace w @ [ev]\<rparr>))"
      and "writes_of c [ev] = [(resolve c p, x)]" and "mkdirs_of c [ev] = []"
  shows "effect_ok c f"
  unfolding effect_ok_def
proof
  fix w
  show "\<exists>evs. trace (snd (f w)) = trace w @ evs
              \<and> files (snd (f w)) = apply_writes (writes_of c evs) (files w)
              \<and> set (dirs (snd (f w))) = set (dirs w) \<union> set (mkdirs_of c evs)"
  proof (cases "open_error c w p")
    case None
    with assms show ?thesis by (intro exI[of _ "[ev]"]) simp
  next
    case (Some e)
    with assms(1) show ?thesis by (intro exI[of _ "[]"]) simp
  qed
qed

lemma effect_write_text: "effect_ok c (write_text c p x)"
  by (rule effect_put[where p = p and x = x and ev = "Write p x"])
     (simp_all add: write_text_def)

lemma effect_dump: "effect_ok c (dump c p x)"
  by (rule effect_put[where p = p and x = x and ev = "Dump p x"])
     (simp_all add: dump_def)

lemma effect_read:
  assumes "\<And>w. effect_ok c (f (g w))"
  shows "effect_ok c (\<lambda>w. f (g w) w)"
  using assms unfolding effect_ok_def by blast

lemma copy2_read:
  "copy2 c src dst
     = (\<lambda>w. (\<lambda>r. case r of
                None \<Rightarrow> (\<lambda>w. (Some (FileNotFoundError src), w))
              | Some content \<Rightarrow>
                  (\<lambda>w. case open_error c w dst of
                         Some e \<Rightarrow> (Some e, w)
                       | None \<Rightarrow> (None, w\<lparr>files := AList.update (resolve c dst) content (files w),
                                          trace := trace w @ [Copy src dst content]\<rparr>)))
             (map_of (files w) (resolve c src)) w)"
  by (rule ext) (simp add: copy2_def split: option.splits)

lemma effect_copy2: "effect_ok c (copy2 c src dst)"
proof -
  let ?f = "\<lambda>r. case r of
                None \<Rightarrow> (\<lambda>w. (Some (FileNotFoundError src), w))
              | Some content \<Rightarrow>
                  (\<lambda>w. case open_error c w dst of
                         Some e \<Rightarrow> (Some e, w)
                       | None \<Rightarrow> (None, w\<lparr>files := AList.update (resolve c dst) content (files w),
                                          trace := trace w @ [Copy src dst content]\<rparr>))"
  let ?g = "\<lambda>w. map_of (files w) (resolve c src)"
  have "effect_ok c (?f r)" for r
  proof (cases r)
    case None
    then show ?thesis by (simp add: effect_done)
  next
    case (Some content)
    have "effect_ok c (\<lambda>w. case open_error c w dst of
                         Some e \<Rightarrow> (Some e, w)
                       | None \<Rightarrow> (None, w\<lparr>files := AList.update (resolve c dst) content (files w),
                                          trace := trace w @ [Copy src dst content]\<rparr>))"
      by (rule effect_put[where p = dst and x = content and ev = "Copy src dst content"])
         simp_all
    with Some show ?thesis by simp
  qed
  then have "effect_ok c (\<lambda>w. ?f (?g w) w)" by (rule effect_read[of c ?f ?g])
  then show ?thesis by (simp only: copy2_read)
qed

subsection \<open>The kind of the calls\<close>

lemma emits_done: "emits P (\<lambda>w. (r, w))"
  unfolding emits_def by (intro allI exI[of _ "[]"]) simp

lemma emits_then_do:
  assumes "emits P f" "emits P g"
  shows "emits P (then_do f g)"
  unfolding emits_def
proof
  fix w
  obtain r1 w1 where f: "f w = (r1, w1)" by (cases "f w")
  from assms(1) f obtain e1 where e1: "trace w1 = trace w @ e1" "list_all P e1"
    unfolding emits_def by (metis snd_conv)
  show "\<exists>evs. trace (snd (then_do f g w)) = trace w @ evs \<and> list_all P evs"
  proof (cases r1)
    case (Some e)
    with f e1 show ?thesis by (auto simp: then_do_def)
  next
    case None
    from assms(2) obtain e2 where e2: "trace (snd (g w1)) = trace w1 @ e2" "list_all P e2"
      unfolding emits_def by blast
    have "then_do f g w = g w1" using f None by (simp add: then_do_def)
    with e1 e2 show ?thesis
      by (intro exI[of _ "e1 @ e2"]) simp
  qed
qed

lemma emits_for_each:
  assumes "\<forall>x\<in>set xs. emits P (f x)"
  shows "emits P (for_each f xs)"
  using assms
proof (induction xs)
  case Nil
  have "for_each f [] = (\<lambda>w. (None, w))" by (rule ext) simp
  then show ?case by (simp add: emits_done)
next
  case (Cons x xs)
  then show ?case by (simp only: for_each_Cons) (auto intro: emits_then_do)
qed

lemma emits_read:
  assumes "\<And>w. emits P (f (g w))"
  shows "emits P (\<lambda>w. f (g w) w)"
  using assms unfolding emits_def by blast

lemma emits_mkdir: "P (Mkdir d) \<Longrightarrow> emits P (\<lambda>w. (None, mkdir_p c d w))"
  unfolding emits_def by (intro allI exI[of _ "[Mkdir d]"]) (simp add: mkdir_p_def)

lemma emits_write_text: "P (Write p x) \<Longrightarrow> emits P (write_text c p x)"
  unfolding emits_def
  by (intro allI) (auto simp: write_text_def split: option.splits)

lemma emits_dump: "P (Dump p x) \<Longrightarrow> emits P (dump c p x)"
  unfolding emits_def
  by (intro allI) (auto simp: dump_def split: option.splits)

lemma emits_copy2: "(\<And>x. P (Copy src dst x)) \<Longrightarrow> emits P (copy2 c src dst)"
  unfolding emits_def
  by (intro allI) (auto simp: copy2_def split: option.splits)

subsection \<open>Calls from states that agree on what is read\<close>

lemma bounded_within:
  assumes "effect_ok c f" "bounded F (f u)"
  shows "within u F"
proof -
  have "within u (snd (f u))" using assms(1) by (rule effect_within)
  moreover have "within (snd (f u)) F" using assms(2) by (simp add: bounded_def)
  ultimately show ?thesis by (rule within_trans)
qed

lemma sim_mkdir: "sim_ok R F (\<lambda>w. (None, mkdir_p c d w))"
  unfolding sim_ok_def
proof (intro allI impI)
  fix u v
  assume a: "agree R (files u) (files v)" and vF: "within v F" and Fv: "within F v"
     and b: "bounded F (None, mkdir_p c d u)"
  from b have "within (mkdir_p c d u) F" by (simp add: bounded_def)
  then have "resolve c d \<in> set (dirs F)"
    by (rule within_dir) (simp add: mkdir_p_def)
  with vF have 1: "within (mkdir_p c d v) F" by (rule within_mkdir_both)
  have 2: "within F (mkdir_p c d v)" using Fv within_mkdir by (rule within_trans)
  show "\<exists>evs. fst (None, mkdir_p c d v) = fst (None, mkdir_p c d u)
              \<and> trace (snd (None, mkdir_p c d u)) = trace u @ evs
              \<and> trace (snd (None, mkdir_p c d v)) = trace v @ evs
              \<and> agree R (files (snd (None, mkdir_p c d u))) (files (snd (None, mkdir_p c d v)))
              \<and> within (snd (None, mkdir_p c d v)) F \<and> within F (snd (None, mkdir_p c d v))"
    using a 1 2 by (intro exI[of _ "[Mkdir d]"]) (simp add: mkdir_p_def)
qed

lemma sim_put:
  assumes f: "\<And>w. f w = (case open_error c w p of
                         Some e \<Rightarrow> (Some e, w)
                       | None \<Rightarrow> (None, w\<lparr>files := AList.update (resolve c p) x (files w),
                                          trace := trace w @ [ev]\<rparr>))"
  shows "sim_ok R F f"
  unfolding sim_ok_def
proof (intro allI impI)
  fix u v
  assume a: "agree R (files u) (files v)" and vF: "within v F" and Fv: "within F v"
     and b: "bounded F (f u)"
  show "\<exists>evs. fst (f v) = fst (f u)
              \<and> trace (snd (f u)) = trace u @ evs \<and> trace (snd (f v)) = trace v @ evs
              \<and> agree R (files (snd (f u))) (files (snd (f v)))
              \<and> within (snd (f v)) F \<and> within F (snd (f v))"
  proof (cases "open_error c u p")
    case (Some e)
    then have fu: "f u = (Some e, u)" by (simp add: f)
    with b have uF: "within u F" "within F u" by (simp_all add: bounded_def)
    have "within u v" using uF(1) Fv by (rule within_trans)
    moreover have "within v u" using vF uF(2) by (rule within_trans)
    ultimately have "open_error c u p = open_error c v p" by (rule open_error_same)
    with Some have fv: "f v = (Some e, v)" by (simp add: f)
    show ?thesis using fu fv a vF Fv by (intro exI[of _ "[]"]) simp
  next
    case None
    let ?u' = "u\<lparr>files := AList.update (resolve c p) x (files u), trace := trace u @ [ev]\<rparr>"
    let ?v' = "v\<lparr>files := AList.update (resolve c p) x (files v), trace := trace v @ [ev]\<rparr>"
    from None have fu: "f u = (None, ?u')" by (simp add: f)
    with b have u'F: "within ?u' F" by (simp add: bounded_def)
    have "within u ?u'" by (rule within_update)
    then have "within u F" using u'F by (rule within_trans)
    then have "within u v" using Fv by (rule within_trans)
    then have "open_error c v p = None" using None by (rule open_error_mono)
    then have fv: "f v = (None, ?v')" by (simp add: f)
    have "resolve c p \<in> fst ` set (files ?u')" by (simp add: dom_update)
    with u'F have "resolve c p \<in> fst ` set (files F)" by (rule within_key)
    with vF have 1: "within ?v' F" by (rule within_update_both)
    have 2: "within F ?v'" using Fv within_update by (rule within_trans)
    have 3: "agree R (files ?u') (files ?v')" using a by (simp add: agree_update)
    show ?thesis using fu fv 1 2 3 by (intro exI[of _ "[ev]"]) simp
  qed
qed

lemma sim_write_text: "sim_ok R F (write_text c p x)"
  by (rule sim_put[where p = p and x = x and ev = "Write p x"]) (simp add: write_text_def)

lemma sim_dump: "sim_ok R F (dump c p x)"
  by (rule sim_put[where p = p and x = x and ev = "Dump p x"]) (simp add: dump_def)

lemma sim_read:
  assumes "\<And>u v. agree R (files u) (files v) \<Longrightarrow> g u = g v"
      and "\<And>u. sim_ok R F (f (g u))"
  shows "sim_ok R F (\<lambda>w. f (g w) w)"
  unfolding sim_ok_def
proof (intro allI impI)
  fix u v
  assume a: "agree R (files u) (files v)" and vF: "within v F" and Fv: "within F v"
     and b: "bounded F (f (g u) u)"
  have g: "g v = g u" using assms(1)[OF a] by simp
  from assms(2)[of u] a vF Fv b
  show "\<exists>evs. fst (f (g v) v) = fst (f (g u) u)
              \<and> trace (snd (f (g u) u)) = trace u @ evs
              \<and> trace (snd (f (g v) v)) = trace v @ evs
              \<and> agree R (files (snd (f (g u) u))) (files (snd (f (g v) v)))
              \<and> within (snd (f (g v) v)) F \<and> within F (snd (f (g v) v))"
    unfolding g sim_ok_def by blast
qed

lemma sim_copy2:
  assumes "R (resolve c src)"
  shows "sim_ok R F (copy2 c src dst)"
proof -
  let ?f = "\<lambda>r. case r of
                None \<Rightarrow> (\<lambda>w. (Some (FileNotFoundError src), w))
              | Some content \<Rightarrow>
                  (\<lambda>w. case open_error c w dst of
                         Some e \<Rightarrow> (Some e, w)
                       | None \<Rightarrow> (None, w\<lparr>files := AList.update (resolve c dst) content (files w),
                                          trace := trace w @ [Copy src dst content]\<rparr>))"
  let ?g = "\<lambda>w. map_of (files w) (resolve c src)"
  have g: "?g u = ?g v" if "agree R (files u) (files v)" for u v
    using that assms by (rule agree_lookup)
  have f: "sim_ok R F (?f r)" for r
  proof (cases r)
    case None
    then show ?thesis by (simp add: sim_done)
  next
    case (Some content)
    have "sim_ok R F (\<lambda>w. case open_error c w dst of
                         Some e \<Rightarrow> (Some e, w)
                       | None \<Rightarrow> (None, w\<lparr>files := AList.update (resolve c dst) content (files w),
                                          trace := trace w @ [Copy src dst content]\<rparr>))"
      by (rule sim_put[where p = dst and x = content and ev = "Copy src dst content"]) simp
    with Some show ?thesis by simp
  qed
  have "sim_ok R F (\<lambda>w. ?f (?g w) w)"
    by (rule sim_read[of R ?g F ?f]) (erule g, rule f)
  then show ?thesis by (simp only: copy2_read)
qed

section \<open>The operations of the build\<close>

subsection \<open>The loops\<close>

lemma renderDoc_loop_for_each:
  "renderDoc_loop c docType destination docTemplate prettyLink fps
     = for_each (renderDoc_file c docType destination docTemplate prettyLink) fps"
proof
  fix w
  show "renderDoc_loop c docType destination docTemplate prettyLink fps w
     = for_each (renderDoc_file c docType destination docTemplate prettyLink) fps w"
    by (induction fps arbitrary: w) (auto split: prod.splits option.splits)
qed

lemma renderDocs_for_each:
  "renderDocs c s docType ps prettyLink = for_each (\<lambda>p. renderDoc c s docType p True) ps"
proof
  fix w
  show "renderDocs c s docType ps prettyLink w
          = for_each (\<lambda>p. renderDoc c s docType p True) ps w"
    by (induction ps arbitrary: w) (auto split: prod.splits option.splits)
qed

lemma render_docTypes_for_each:
  "render_docTypes c s ts prettyLink
     = for_each (\<lambda>t. renderDocs c s t (pandocDirs s) prettyLink) ts"
proof
  fix w
  show "render_docTypes c s ts prettyLink w
     = for_each (\<lambda>t. renderDocs c s t (pandocDirs s) prettyLink) ts w"
    by (induction ts arbitrary: w) (auto split: prod.splits option.splits)
qed

lemma renderTemplates_for_each: "renderTemplates c s ts = for_each (renderTemplate c s) ts"
proof
  fix w
  show "renderTemplates c s ts w = for_each (renderTemplate c s) ts w"
    by (induction ts arbitrary: w) (auto split: prod.splits option.splits)
qed

lemma copyStatic_for_each: "copyStatic c s ps = for_each (copyStatic_file c s) ps"
proof
  fix w
  show "copyStatic c s ps w = for_each (copyStatic_file c s) ps w"
    by (induction ps arbitrary: w) (auto split: prod.splits option.splits)
qed

lemma render_stages:
  "render c s prettyLink
     = then_do (\<lambda>w. (None, mkdir_p c (buildDir s) w))
         (then_do (document_stage c s prettyLink)
            (then_do (page_stage c s) (static_stage c s)))"
  by (rule ext)
     (simp add: render_def then_do_def document_stage_def page_stage_def static_stage_def
        Let_def split: prod.splits option.splits)

subsection \<open>Documents\<close>

lemma renderDoc_file_ok:
  "effect_ok c (renderDoc_file c docType destination docTemplate prettyLink fp)"
  "emits is_doc_event (renderDoc_file c docType destination docTemplate prettyLink fp)"
  "R (resolve c fp) \<longrightarrow>
     sim_ok R F (renderDoc_file c docType destination docTemplate prettyLink fp)"
proof -
  let ?d = "join destination (stem (basename fp))"
  let ?f = "\<lambda>r. case r of
               None \<Rightarrow> (\<lambda>w. (Some (FileNotFoundError fp), w))
             | Some body \<Rightarrow>
                 (if prettyLink then
                    then_do (\<lambda>w. (None, mkdir_p c ?d w))
                      (write_text c (newFilepath destination True fp)
                         (platify (pandoc c body docType) docTemplate))
                  else write_text c (newFilepath destination False fp)
                         (platify (pandoc c body docType) docTemplate))"
  let ?g = "\<lambda>w. map_of (files w) (resolve c fp)"
  have eq: "renderDoc_file c docType destination docTemplate prettyLink fp
              = (\<lambda>w. ?f (?g w) w)"
    by (rule ext) (simp add: renderDoc_file_def then_do_def Let_def split: option.splits)
  have e: "effect_ok c (?f r)" for r
    by (cases r)
       (auto intro: effect_done effect_then_do effect_mkdir effect_write_text)
  have m: "emits is_doc_event (?f r)" for r
    by (cases r)
       (auto intro!: emits_done emits_then_do emits_mkdir emits_write_text)
  have s: "sim_ok R F (?f r)" for r
    by (cases r)
       (auto intro: sim_done sim_then_do[where c = c] sim_mkdir sim_write_text
          effect_write_text)
  have "effect_ok c (\<lambda>w. ?f (?g w) w)" by (rule effect_read[of c ?f ?g]) (rule e)
  then show "effect_ok c (renderDoc_file c docType destination docTemplate prettyLink fp)"
    by (simp only: eq)
  have "emits is_doc_event (\<lambda>w. ?f (?g w) w)" by (rule emits_read[of is_doc_event ?f ?g]) (rule m)
  then show "emits is_doc_event (renderDoc_file c docType destination docTemplate prettyLink fp)"
    by (simp only: eq)
  show "R (resolve c fp) \<longrightarrow>
     sim_ok R F (renderDoc_file c docType destination docTemplate prettyLink fp)"
  proof
    assume R: "R (resolve c fp)"
    have g: "?g u = ?g v" if "agree R (files u) (files v)" for u v
      using that R by (rule agree_lookup)
    have "sim_ok R F (\<lambda>w. ?f (?g w) w)"
      by (rule sim_read[of R ?g F ?f]) (erule g, rule s)
    then show "sim_ok R F (renderDoc_file c docType destination docTemplate prettyLink fp)"
      by (simp only: eq)
  qed
qed

lemma glob_agree:
  assumes "agree R (files u) (files v)" and "\<forall>k. glob_match c source docType k \<longrightarrow> R k"
  shows "glob c u source docType = glob c v source docType"
  using agree_filter[OF assms] by (simp add: glob_def)

lemma isfile_agree:
  "agree R (files u) (files v) \<Longrightarrow> R (resolve c p) \<Longrightarrow> isfile c u p = isfile c v p"
  by (simp add: isfile_def agree_lookup)

lemma glob_member:
  assumes "fp \<in> set (glob c w source docType)"
  shows "\<exists>k. glob_match c source docType k \<and> resolve c fp = k \<and> fp = join source (last k)
           \<and> k \<in> fst ` set (files w)"
proof -
  from assms obtain k where k: "k \<in> fst ` set (files w)" "glob_match c source docType k"
      "fp = join source (last k)"
    by (auto simp: glob_def)
  with glob_resolve[OF k(2)] show ?thesis by blast
qed

lemma renderDoc_ok:
  "effect_ok c (renderDoc c s docType p prettyLink)"
  "emits is_doc_event (renderDoc c s docType p prettyLink)"
  "R (resolve c (join (templatePath s) (docTemplate_of p)))
     \<and> (\<forall>k. glob_match c (join (getcwd c) p) docType k \<longrightarrow> R k)
   \<longrightarrow> sim_ok R F (renderDoc c s docType p prettyLink)"
proof -
  let ?src = "join (getcwd c) p"
  let ?dest = "join (templatePath s) p"
  let ?tp = "join (templatePath s) (docTemplate_of p)"
  let ?f = "\<lambda>r. if \<not> fst r then
                 (\<lambda>w. (Some (AssertionError (''No template '' @ ?tp
                                              @ '' has been found, aborting.'')), w))
               else for_each (renderDoc_file c docType ?dest (docTemplate_of p) prettyLink) (snd r)"
  let ?g = "\<lambda>w. (isfile c w ?tp, glob c w ?src docType)"
  have eq: "renderDoc c s docType p prettyLink = (\<lambda>w. ?f (?g w) w)"
    by (rule ext) (simp add: renderDoc_def Let_def renderDoc_loop_for_each)
  have e: "effect_ok c (?f r)" for r
    by (auto intro: effect_done effect_for_each renderDoc_file_ok(1))
  have m: "emits is_doc_event (?f r)" for r
    by (auto intro!: emits_done emits_for_each renderDoc_file_ok(2))
  have "effect_ok c (\<lambda>w. ?f (?g w) w)" by (rule effect_read[of c ?f ?g]) (rule e)
  then show "effect_ok c (renderDoc c s docType p prettyLink)"
    by (simp only: eq)
  have "emits is_doc_event (\<lambda>w. ?f (?g w) w)" by (rule emits_read[of is_doc_event ?f ?g]) (rule m)
  then show "emits is_doc_event (renderDoc c s docType p prettyLink)"
    by (simp only: eq)
  show "R (resolve c ?tp) \<and> (\<forall>k. glob_match c ?src docType k \<longrightarrow> R k)
          \<longrightarrow> sim_ok R F (renderDoc c s docType p prettyLink)"
  proof
    assume R: "R (resolve c ?tp) \<and> (\<forall>k. glob_match c ?src docType k \<longrightarrow> R k)"
    have g: "?g u = ?g v" if a: "agree R (files u) (files v)" for u v
      using isfile_agree[OF a, of c ?tp] glob_agree[OF a, of c ?src docType] R by simp
    have s: "sim_ok R F (?f (?g u))" for u
    proof (cases "isfile c u ?tp")
      case False
      then show ?thesis by (simp add: sim_done)
    next
      case True
      have "\<forall>fp\<in>set (glob c u ?src docType).
              sim_ok R F (renderDoc_file c docType ?dest (docTemplate_of p) prettyLink fp)
              \<and> effect_ok c (renderDoc_file c docType ?dest (docTemplate_of p) prettyLink fp)"
      proof
        fix fp assume "fp \<in> set (glob c u ?src docType)"
        from glob_member[OF this] R have "R (resolve c fp)" by blast
        with renderDoc_file_ok(3)[of R c fp F docType ?dest "docTemplate_of p" prettyLink]
          renderDoc_file_ok(1)[of c docType ?dest "docTemplate_of p" prettyLink fp]
        show "sim_ok R F (renderDoc_file c docType ?dest (docTemplate_of p) prettyLink fp)
              \<and> effect_ok c (renderDoc_file c docType ?dest (docTemplate_of p) prettyLink fp)"
          by blast
      qed
      then have "sim_ok R F (for_each (renderDoc_file c docType ?dest (docTemplate_of p) prettyLink)
                    (glob c u ?src docType))"
        by (rule sim_for_each)
      with True show ?thesis by simp
    qed
    have "sim_ok R F (\<lambda>w. ?f (?g w) w)"
      by (rule sim_read[of R ?g F ?f]) (erule g, rule s)
    then show "sim_ok R F (renderDoc c s docType p prettyLink)"
      by (simp only: eq)
  qed
qed

lemma doc_input_template:
  "p \<in> set (pandocDirs s) \<Longrightarrow>
   doc_input c s (resolve c (join (templatePath s) (docTemplate_of p)))"
  by (auto simp: doc_input_def list_ex_iff)

lemma doc_input_glob:
  "p \<in> set (pandocDirs s) \<Longrightarrow> docType \<in> set (pandocTypes s) \<Longrightarrow>
   glob_match c (join (getcwd c) p) docType k \<Longrightarrow> doc_input c s k"
  by (auto simp: doc_input_def list_ex_iff)

lemma document_stage_ok:
  "effect_ok c (document_stage c s prettyLink)"
  "emits is_doc_event (document_stage c s prettyLink)"
  "(\<forall>k. doc_input c s k \<longrightarrow> R k) \<longrightarrow> sim_ok R F (document_stage c s prettyLink)"
proof -
  have eq: "document_stage c s prettyLink
              = for_each (\<lambda>t. for_each (\<lambda>p. renderDoc c s t p True) (pandocDirs s)) (pandocTypes s)"
    by (rule ext)
       (simp add: document_stage_def render_docTypes_for_each renderDocs_for_each)
  have e: "effect_ok c (for_each (\<lambda>p. renderDoc c s t p True) ps)" for t ps
    by (rule effect_for_each) (simp add: renderDoc_ok(1))
  show "effect_ok c (document_stage c s prettyLink)"
    unfolding eq by (rule effect_for_each) (simp add: e)
  have m: "emits is_doc_event (for_each (\<lambda>p. renderDoc c s t p True) ps)" for t ps
    by (rule emits_for_each) (simp add: renderDoc_ok(2))
  show "emits is_doc_event (document_stage c s prettyLink)"
    unfolding eq by (rule emits_for_each) (simp add: m)
  show "(\<forall>k. doc_input c s k \<longrightarrow> R k) \<longrightarrow> sim_ok R F (document_stage c s prettyLink)"
  proof
    assume R: "\<forall>k. doc_input c s k \<longrightarrow> R k"
    have s: "sim_ok R F (for_each (\<lambda>p. renderDoc c s t p True) (pandocDirs s))"
      if t: "t \<in> set (pandocTypes s)" for t
    proof (rule sim_for_each[where c = c], rule ballI, rule conjI)
      fix p assume p: "p \<in> set (pandocDirs s)"
      have "R (resolve c (join (templatePath s) (docTemplate_of p)))"
        using doc_input_template[OF p] R by blast
      moreover have "\<forall>k. glob_match c (join (getcwd c) p) t k \<longrightarrow> R k"
        using doc_input_glob[OF p t] R by blast
      ultimately show "sim_ok R F (renderDoc c s t p True)"
        using renderDoc_ok(3)[of R c s p t F True] by blast
      show "effect_ok c (renderDoc c s t p True)" by (rule renderDoc_ok(1))
    qed
    show "sim_ok R F (document_stage c s prettyLink)"
      unfolding eq
      by (rule sim_for_each[where c = c]) (simp add: s e)
  qed
qed

subsection \<open>Pages\<close>

lemma ensureParent_ok:
  "effect_ok c (\<lambda>w. (None, ensureParent c s n w))"
  "(\<forall>d. P (Mkdir d)) \<longrightarrow> emits P (\<lambda>w. (None, ensureParent c s n w))"
  "sim_ok R F (\<lambda>w. (None, ensureParent c s n w))"
proof -
  have eq: "(\<lambda>w. (None, ensureParent c s n w))
              = (if dirname n \<noteq> [] then (\<lambda>w. (None, mkdir_p c (join (buildDir s) (dirname n)) w))
                 else (\<lambda>w. (None, w)))"
    by (rule ext) (simp add: ensureParent_def Let_def)
  show "effect_ok c (\<lambda>w. (None, ensureParent c s n w))"
    unfolding eq by (simp add: effect_mkdir effect_done)
  show "(\<forall>d. P (Mkdir d)) \<longrightarrow> emits P (\<lambda>w. (None, ensureParent c s n w))"
    unfolding eq by (simp add: emits_mkdir emits_done)
  show "sim_ok R F (\<lambda>w. (None, ensureParent c s n w))"
    unfolding eq by (simp add: sim_mkdir sim_done)
qed

lemma under_templates_append: "under_templates c s (resolve c (templatePath s) @ pieces)"
  by (simp add: under_templates_def)

lemma template_source_agree:
  assumes "agree R (files u) (files v)" and "\<forall>k. under_templates c s k \<longrightarrow> R k"
  shows "template_source c u (templatePath s) = template_source c v (templatePath s)"
proof
  fix t
  show "template_source c u (templatePath s) t = template_source c v (templatePath s) t"
  proof (cases "split_template_path t")
    case None
    then show ?thesis by (simp add: template_source_def)
  next
    case (Some pieces)
    have "R (resolve c (templatePath s) @ pieces)"
      using assms(2) under_templates_append by blast
    with assms(1) have "map_of (files u) (resolve c (templatePath s) @ pieces)
                      = map_of (files v) (resolve c (templatePath s) @ pieces)"
      by (rule agree_lookup)
    with Some show ?thesis by (simp add: template_source_def)
  qed
qed

lemma map_filter_filter:
  "(\<forall>x. f x \<noteq> None \<longrightarrow> M x) \<Longrightarrow> List.map_filter f (filter M xs) = List.map_filter f xs"
  by (induction xs) (auto simp: List.map_filter_def)

lemma relative_name_under:
  "relative_name c (templatePath s) k \<noteq> None \<Longrightarrow> under_templates c s k"
  by (auto simp: relative_name_def under_templates_def is_under_def split: if_splits)

lemma list_templates_agree:
  assumes "agree R (files u) (files v)" and "\<forall>k. under_templates c s k \<longrightarrow> R k"
  shows "list_templates c u (templatePath s) = list_templates c v (templatePath s)"
proof -
  have "filter (under_templates c s) (map fst (files u))
          = filter (under_templates c s) (map fst (files v))"
    using assms by (rule agree_filter)
  moreover have "List.map_filter (relative_name c (templatePath s))
                    (filter (under_templates c s) xs)
                  = List.map_filter (relative_name c (templatePath s)) xs" for xs
    by (rule map_filter_filter) (use relative_name_under in blast)
  ultimately have "List.map_filter (relative_name c (templatePath s)) (map fst (files u))
                 = List.map_filter (relative_name c (templatePath s)) (map fst (files v))"
    by metis
  then show ?thesis by (simp add: list_templates_def)
qed

lemma templates_agree:
  assumes "agree R (files u) (files v)" and "\<forall>k. under_templates c s k \<longrightarrow> R k"
  shows "templates c s u = templates c s v" "staticFiles c s u = staticFiles c s v"
  using list_templates_agree[OF assms]
  by (simp_all add: templates_def templateNames_def staticFiles_def)

lemma renderTemplate_ok:
  "effect_ok c (renderTemplate c s t)"
  "emits is_page_event (renderTemplate c s t)"
  "(\<forall>k. under_templates c s k \<longrightarrow> R k) \<longrightarrow> sim_ok R F (renderTemplate c s t)"
proof -
  let ?fp = "join (buildDir s) (name t)"
  let ?f = "\<lambda>src. dump c ?fp (jinja c (encoding s) src (name t))"
  let ?g = "\<lambda>w. template_source c w (templatePath s)"
  have eq: "renderTemplate c s t
              = then_do (\<lambda>w. (None, ensureParent c s (name t) w)) (\<lambda>w. ?f (?g w) w)"
    by (rule ext) (simp add: renderTemplate_def then_do_def Let_def)
  have e: "effect_ok c (\<lambda>w. ?f (?g w) w)"
    by (rule effect_read[of c ?f ?g]) (rule effect_dump)
  show "effect_ok c (renderTemplate c s t)"
    unfolding eq using ensureParent_ok(1) e by (rule effect_then_do)
  have "emits is_page_event (\<lambda>w. ?f (?g w) w)"
    by (rule emits_read[of is_page_event ?f ?g]) (simp add: emits_dump)
  moreover have "emits is_page_event (\<lambda>w. (None, ensureParent c s (name t) w))"
    using ensureParent_ok(2)[of is_page_event c s "name t"] by simp
  ultimately show "emits is_page_event (renderTemplate c s t)"
    unfolding eq by (intro emits_then_do)
  show "(\<forall>k. under_templates c s k \<longrightarrow> R k) \<longrightarrow> sim_ok R F (renderTemplate c s t)"
  proof
    assume R: "\<forall>k. under_templates c s k \<longrightarrow> R k"
    have g: "?g u = ?g v" if a: "agree R (files u) (files v)" for u v
      using a R by (rule template_source_agree)
    have "sim_ok R F (\<lambda>w. ?f (?g w) w)"
      by (rule sim_read[of R ?g F ?f]) (erule g, rule sim_dump)
    with ensureParent_ok(3) show "sim_ok R F (renderTemplate c s t)"
      unfolding eq using e by (rule sim_then_do)
  qed
qed

lemma page_stage_ok:
  "effect_ok c (page_stage c s)"
  "emits is_page_event (page_stage c s)"
  "(\<forall>k. under_templates c s k \<longrightarrow> R k) \<longrightarrow> sim_ok R F (page_stage c s)"
proof -
  let ?f = "\<lambda>ts. for_each (renderTemplate c s) ts"
  let ?g = "templates c s"
  have eq: "page_stage c s = (\<lambda>w. ?f (?g w) w)"
    by (rule ext) (simp add: page_stage_def renderTemplates_for_each)
  have e: "effect_ok c (?f ts)" for ts
    by (rule effect_for_each) (simp add: renderTemplate_ok(1))
  have m: "emits is_page_event (?f ts)" for ts
    by (rule emits_for_each) (simp add: renderTemplate_ok(2))
  have "effect_ok c (\<lambda>w. ?f (?g w) w)" by (rule effect_read[of c ?f ?g]) (rule e)
  then show "effect_ok c (page_stage c s)" by (simp only: eq)
  have "emits is_page_event (\<lambda>w. ?f (?g w) w)"
    by (rule emits_read[of is_page_event ?f ?g]) (rule m)
  then show "emits is_page_event (page_stage c s)" by (simp only: eq)
  show "(\<forall>k. under_templates c s k \<longrightarrow> R k) \<longrightarrow> sim_ok R F (page_stage c s)"
  proof
    assume R: "\<forall>k. under_templates c s k \<longrightarrow> R k"
    have g: "?g u = ?g v" if a: "agree R (files u) (files v)" for u v
      using a R by (rule templates_agree(1))
    have s: "sim_ok R F (?f ts)" for ts
      by (rule sim_for_each[where c = c])
         (use R renderTemplate_ok(1) renderTemplate_ok(3)[of c s R F] in blast)
    have "sim_ok R F (\<lambda>w. ?f (?g w) w)"
      by (rule sim_read[of R ?g F ?f]) (erule g, rule s)
    then show "sim_ok R F (page_stage c s)" by (simp only: eq)
  qed
qed

subsection \<open>Static files\<close>

lemma isStatic_source:
  assumes "isStatic s p"
  shows "static_source c s (resolve c (join (getcwd c) p))"
proof -
  from assms obtain d rest where d: "staticDirs s = d # rest" "take (length p) d = p"
    by (cases "staticDirs s") (auto simp: isStatic_def startswith_def split: if_splits)
  have "length (take (length p) d) = length p" using d(2) by simp
  then have "length p \<le> length d" by simp
  then have "length p < Suc (length d)" by (rule le_imp_less_Suc)
  then have "length p \<in> set [0..<Suc (length d)]"
    by (simp only: set_upt atLeastLessThan_iff le0 simp_thms)
  moreover have "resolve c (join (getcwd c) p)
                   = resolve c (join (getcwd c) (take (length p) d))"
    using d(2) by simp
  ultimately have "\<exists>i\<in>set [0..<Suc (length d)].
                     resolve c (join (getcwd c) p) = resolve c (join (getcwd c) (take i d))"
    by (rule bexI[rotated])
  then show ?thesis
    unfolding static_source_def list_ex_iff d(1) by simp
qed

lemma copyStatic_file_ok:
  "effect_ok c (copyStatic_file c s p)"
  "emits is_static_event (copyStatic_file c s p)"
  "R (resolve c (join (getcwd c) p)) \<longrightarrow> sim_ok R F (copyStatic_file c s p)"
proof -
  have eq: "copyStatic_file c s p
              = (case buildPath s of
                   None \<Rightarrow> (\<lambda>w. (Some (AttributeError ''buildPath''), w))
                 | Some bp \<Rightarrow> then_do (\<lambda>w. (None, ensureParent c s p w))
                                (copy2 c (join (getcwd c) p) (join bp p)))"
    by (rule ext) (simp add: copyStatic_file_def then_do_def Let_def split: option.splits)
  show "effect_ok c (copyStatic_file c s p)"
    unfolding eq
    by (cases "buildPath s")
       (auto intro: effect_done effect_then_do ensureParent_ok(1) effect_copy2)
  have "emits is_static_event (\<lambda>w. (None, ensureParent c s p w))"
    using ensureParent_ok(2)[of is_static_event c s p] by simp
  then show "emits is_static_event (copyStatic_file c s p)"
    unfolding eq
    by (cases "buildPath s") (auto intro!: emits_done emits_then_do emits_copy2)
  show "R (resolve c (join (getcwd c) p)) \<longrightarrow> sim_ok R F (copyStatic_file c s p)"
    unfolding eq
    by (cases "buildPath s")
       (auto intro: sim_done sim_then_do[where c = c] ensureParent_ok(3) sim_copy2 effect_copy2)
qed

lemma static_stage_ok:
  "effect_ok c (static_stage c s)"
  "emits is_static_event (static_stage c s)"
  "(\<forall>k. under_templates c s k \<or> static_source c s k \<longrightarrow> R k) \<longrightarrow> sim_ok R F (static_stage c s)"
proof -
  let ?f = "\<lambda>ps. for_each (copyStatic_file c s) ps"
  let ?g = "staticFiles c s"
  have eq: "static_stage c s = (\<lambda>w. ?f (?g w) w)"
    by (rule ext) (simp add: static_stage_def copyStatic_for_each)
  have e: "effect_ok c (?f ps)" for ps
    by (rule effect_for_each) (simp add: copyStatic_file_ok(1))
  have m: "emits is_static_event (?f ps)" for ps
    by (rule emits_for_each) (simp add: copyStatic_file_ok(2))
  have "effect_ok c (\<lambda>w. ?f (?g w) w)" by (rule effect_read[of c ?f ?g]) (rule e)
  then show "effect_ok c (static_stage c s)" by (simp only: eq)
  have "emits is_static_event (\<lambda>w. ?f (?g w) w)"
    by (rule emits_read[of is_static_event ?f ?g]) (rule m)
  then show "emits is_static_event (static_stage c s)" by (simp only: eq)
  show "(\<forall>k. under_templates c s k \<or> static_source c s k \<longrightarrow> R k)
          \<longrightarrow> sim_ok R F (static_stage c s)"
  proof
    assume R: "\<forall>k. under_templates c s k \<or> static_source c s k \<longrightarrow> R k"
    then have RT: "\<forall>k. under_templates c s k \<longrightarrow> R k" by blast
    have g: "?g u = ?g v" if a: "agree R (files u) (files v)" for u v
      using a RT by (rule templates_agree(2))
    have s: "sim_ok R F (?f (?g u))" for u
    proof (rule sim_for_each[where c = c], rule ballI, rule conjI)
      fix p assume "p \<in> set (staticFiles c s u)"
      then have "isStatic s p" by (simp add: staticFiles_def)
      then have "static_source c s (resolve c (join (getcwd c) p))" by (rule isStatic_source)
      with R have "R (resolve c (join (getcwd c) p))" by blast
      with copyStatic_file_ok(3)[of R c p F s] show "sim_ok R F (copyStatic_file c s p)"
        by blast
      show "effect_ok c (copyStatic_file c s p)" by (rule copyStatic_file_ok(1))
    qed
    have "sim_ok R F (\<lambda>w. ?f (?g w) w)"
      by (rule sim_read[of R ?g F ?f]) (erule g, rule s)
    then show "sim_ok R F (static_stage c s)" by (simp only: eq)
  qed
qed

section \<open>The order of the stages\<close>

lemma two_stage_trace:
  assumes "emits P f" "emits Q g"
  shows "\<exists>xs ys. trace (snd (then_do f g w)) = trace w @ xs @ ys
           \<and> list_all P xs \<and> list_all Q ys"
proof -
  obtain r1 w1 where f: "f w = (r1, w1)" by (cases "f w")
  from assms(1) f obtain xs where xs: "trace w1 = trace w @ xs" "list_all P xs"
    unfolding emits_def by (metis snd_conv)
  show ?thesis
  proof (cases r1)
    case (Some e)
    with f xs have "trace (snd (then_do f g w)) = trace w @ xs @ []
                      \<and> list_all P xs \<and> list_all Q []"
      by (simp add: then_do_def)
    then show ?thesis by blast
  next
    case None
    from assms(2) obtain ys where ys: "trace (snd (g w1)) = trace w1 @ ys" "list_all Q ys"
      unfolding emits_def by blast
    have "then_do f g w = g w1" using f None by (simp add: then_do_def)
    with xs ys have "trace (snd (then_do f g w)) = trace w @ xs @ ys
                      \<and> list_all P xs \<and> list_all Q ys"
      by simp
    then show ?thesis by blast
  qed
qed

lemma three_stage_trace:
  assumes "emits P f" "emits Q g" "emits T h"
  shows "\<exists>xs ys zs. trace (snd (then_do f (then_do g h) w)) = trace w @ xs @ ys @ zs
           \<and> list_all P xs \<and> list_all Q ys \<and> list_all T zs"
proof -
  obtain r1 w1 where f: "f w = (r1, w1)" by (cases "f w")
  from assms(1) f obtain xs where xs: "trace w1 = trace w @ xs" "list_all P xs"
    unfolding emits_def by (metis snd_conv)
  show ?thesis
  proof (cases r1)
    case (Some e)
    with f xs have "trace (snd (then_do f (then_do g h) w)) = trace w @ xs @ [] @ []
                      \<and> list_all P xs \<and> list_all Q [] \<and> list_all T []"
      by (simp add: then_do_def)
    then show ?thesis by blast
  next
    case None
    from two_stage_trace[OF assms(2,3), of w1] obtain ys zs where
      "trace (snd (then_do g h w1)) = trace w1 @ ys @ zs" "list_all Q ys" "list_all T zs"
      by blast
    moreover have "then_do f (then_do g h) w = then_do g h w1"
      using f None by (simp add: then_do_def)
    ultimately have "trace (snd (then_do f (then_do g h) w)) = trace w @ xs @ ys @ zs
                      \<and> list_all P xs \<and> list_all Q ys \<and> list_all T zs"
      using xs by simp
    then show ?thesis by blast
  qed
qed

text \<open>
  Claim C6. A full build first creates the output root; every file-system call that
  follows belongs to the document stage, then to the page stage, then to the static
  stage, in this order: no document is written after a page has been dumped and no page
  is dumped after a static file has been copied.
\<close>

theorem C6_stage_order: "\<exists>docs pages statics.
   trace (snd (render c s prettyLink w))
     = trace w @ [Mkdir (buildDir s)] @ docs @ pages @ statics
   \<and> list_all is_doc_event docs \<and> list_all is_page_event pages
   \<and> list_all is_static_event statics"
proof -
  let ?w0 = "mkdir_p c (buildDir s) w"
  have w0: "trace ?w0 = trace w @ [Mkdir (buildDir s)]"
    by (simp add: mkdir_p_def)
  have r: "render c s prettyLink w
             = then_do (document_stage c s prettyLink)
                 (then_do (page_stage c s) (static_stage c s)) ?w0"
    by (simp add: render_stages then_do_def)
  from three_stage_trace[OF document_stage_ok(2) page_stage_ok(2) static_stage_ok(2),
         of c s prettyLink c s c s ?w0]
  show ?thesis unfolding r w0 by simp
qed

section \<open>Documents\<close>

text \<open>
  Claim C7. When the template \<open>_<basename>.html\<close> of a document directory is not a file
  under the template root, \<open>renderDoc\<close> raises the assertion error whose message names
  the missing template, the state is the one it started from (nothing has been written),
  and \<open>renderDocs\<close> ends with the same error.
\<close>

theorem C7_missing_template_aborts:
  assumes "\<not> isfile c w (join (templatePath s) (docTemplate_of p))"
  shows "renderDoc c s docType p prettyLink w
           = (Some (AssertionError (''No template '' @ join (templatePath s) (''_'' @ basename p @ ''.html'')
                                     @ '' has been found, aborting.'')), w)
         \<and> renderDocs c s docType (p # rest) prettyLink w = renderDoc c s docType p prettyLink w"
  using assms by (simp add: renderDoc_def Let_def docTemplate_of_def)

theorem C7_missing_template_aborts_witness:
  "\<not> isfile demo_collab demo_world
       (join (templatePath (demo_site [] [''pages''])) (docTemplate_of ''pages''))
   \<and> renderDoc demo_collab (demo_site [] [''pages'']) ''org'' ''pages'' True demo_world
       = (Some (AssertionError ''No template templates/_pages.html has been found, aborting.''),
          demo_world)
   \<and> renderDocs demo_collab (demo_site [] [''pages'']) ''org'' [''pages'', ''posts''] True demo_world
       = (Some (AssertionError ''No template templates/_pages.html has been found, aborting.''),
          demo_world)"
proof -
  have h: "\<not> isfile demo_collab demo_world
             (join (templatePath (demo_site [] [''pages''])) (docTemplate_of ''pages''))"
    by (simp add: demo_defs path_defs isfile_def docTemplate_of_def)
  have m: "''No template '' @ join (templatePath (demo_site [] [''pages'']))
             (''_'' @ basename ''pages'' @ ''.html'') @ '' has been found, aborting.''
           = ''No template templates/_pages.html has been found, aborting.''"
    by (simp add: demo_defs path_defs)
  from C7_missing_template_aborts[OF h, of "''org''" True "[''posts'']"] h
  show ?thesis unfolding m by simp
qed

lemma renderDocs_ignores_prettyLink:
  "renderDocs c s docType dirpaths prettyLink w = renderDocs c s docType dirpaths True w"
  by (simp add: renderDocs_for_each)

lemma demo_hello:
  "resolve demo_collab ''/home/site/posts/hello.org'' = [''home'', ''site'', ''posts'', ''hello.org'']"
  "resolve demo_collab ''templates/_posts.html'' = [''home'', ''site'', ''templates'', ''_posts.html'']"
  "resolve demo_collab ''templates/posts/hello'' = [''home'', ''site'', ''templates'', ''posts'', ''hello'']"
  "resolve demo_collab ''templates/posts/hello/index.html''
     = [''home'', ''site'', ''templates'', ''posts'', ''hello'', ''index.html'']"
  "resolve demo_collab ''templates/posts/hello.org''
     = [''home'', ''site'', ''templates'', ''posts'', ''hello.org'']"
  "resolve demo_collab ''/home/site/posts'' = [''home'', ''site'', ''posts'']"
  by (simp_all add: demo_defs path_defs)

lemma glob_demo:
  "glob demo_collab demo_world (join (getcwd demo_collab) ''posts'') ''org''
     = [''/home/site/posts/hello.org'']"
  "glob demo_collab posts_world (join (getcwd demo_collab) ''posts'') ''org''
     = [''/home/site/posts/hello.org'']"
proof -
  have j: "join (getcwd demo_collab) ''posts'' = ''/home/site/posts''"
    by (simp add: demo_defs path_defs)
  show "glob demo_collab demo_world (join (getcwd demo_collab) ''posts'') ''org''
     = [''/home/site/posts/hello.org'']"
    unfolding j
    by (simp add: glob_def glob_match_def demo_hello demo_world_def plain_def endswith_def
          join_def startswith_def sep_def)
  then show "glob demo_collab posts_world (join (getcwd demo_collab) ''posts'') ''org''
     = [''/home/site/posts/hello.org'']"
    by (simp add: glob_def posts_world_def)
qed

lemma renderDocs_demo:
  "renderDocs demo_collab (demo_site [] [''posts'']) ''org'' [''posts''] True demo_world
     = (None, demo_world
         \<lparr>files := files demo_world
                    @ [([''home'', ''site'', ''templates'', ''posts'', ''hello'', ''index.html''],
                        platify ''<p>* Hello</p>'' ''_posts.html'')],
          dirs := [[''home'', ''site'', ''templates'', ''posts'', ''hello'']],
          trace := [Mkdir ''templates/posts/hello'',
                    Write ''templates/posts/hello/index.html''
                      (platify ''<p>* Hello</p>'' ''_posts.html'')]\<rparr>)"
  by (simp add: demo_defs path_defs fs_defs build_defs Let_def)

lemma renderDoc_plain_posts:
  "renderDoc demo_collab (demo_site [] [''posts'']) ''org'' ''posts'' False posts_world
     = (None, posts_world
         \<lparr>files := files posts_world
                    @ [([''home'', ''site'', ''templates'', ''posts'', ''hello.org''],
                        platify ''<p>* Hello</p>'' ''_posts.html'')],
          trace := [Write ''templates/posts/hello.org''
                      (platify ''<p>* Hello</p>'' ''_posts.html'')]\<rparr>)"
  by (simp add: demo_defs path_defs fs_defs build_defs Let_def posts_world_def)

lemma renderDoc_plain_demo:
  "renderDoc demo_collab (demo_site [] [''posts'']) ''org'' ''posts'' False demo_world
     = (Some (FileNotFoundError ''templates/posts/hello.org''), demo_world)"
  by (simp add: demo_defs path_defs fs_defs build_defs Let_def)

text \<open>
  Claim C8. The layout of the converted documents is meant to follow the \<open>prettyLink\<close>
  argument of \<open>renderDocs\<close>, the layout without pretty links being \<open><basename>.html\<close>.
  Called with \<open>prettyLink=False\<close> on the directory \<open>posts\<close> holding \<open>hello.org\<close>,
  \<open>renderDocs\<close> does what it does with \<open>prettyLink=True\<close>: it creates the directory
  \<open>templates/posts/hello\<close> and writes \<open>templates/posts/hello/index.html\<close>, the pretty
  layout. \<open>renderDoc\<close> itself, called with \<open>prettyLink=False\<close> where the directory
  \<open>templates/posts\<close> exists, writes \<open>templates/posts/hello.org\<close>, not \<open>hello.html\<close>, and
  makes no other call; where that directory does not exist it creates none, and opening
  the file raises \<open>FileNotFoundError\<close> with nothing written.
\<close>

theorem C8_prettyLink_not_forwarded:
  "renderDocs demo_collab (demo_site [] [''posts'']) ''org'' [''posts''] False demo_world
     = renderDocs demo_collab (demo_site [] [''posts'']) ''org'' [''posts''] True demo_world
   \<and> fst (renderDocs demo_collab (demo_site [] [''posts'']) ''org'' [''posts''] False demo_world)
       = None
   \<and> trace (snd (renderDocs demo_collab (demo_site [] [''posts'']) ''org'' [''posts'']
                    False demo_world))
       = [Mkdir ''templates/posts/hello'',
          Write ''templates/posts/hello/index.html'' (platify ''<p>* Hello</p>'' ''_posts.html'')]
   \<and> isdir posts_world [''home'', ''site'', ''templates'', ''posts'']
   \<and> fst (renderDoc demo_collab (demo_site [] [''posts'']) ''org'' ''posts'' False posts_world)
       = None
   \<and> trace (snd (renderDoc demo_collab (demo_site [] [''posts'']) ''org'' ''posts''
                    False posts_world))
       = [Write ''templates/posts/hello.org'' (platify ''<p>* Hello</p>'' ''_posts.html'')]
   \<and> \<not> isdir demo_world [''home'', ''site'', ''templates'', ''posts'']
   \<and> renderDoc demo_collab (demo_site [] [''posts'']) ''org'' ''posts'' False demo_world
       = (Some (FileNotFoundError ''templates/posts/hello.org''), demo_world)"
proof -
  have "renderDocs demo_collab (demo_site [] [''posts'']) ''org'' [''posts''] False demo_world
     = renderDocs demo_collab (demo_site [] [''posts'']) ''org'' [''posts''] True demo_world"
    by (rule renderDocs_ignores_prettyLink)
  moreover have "isdir posts_world [''home'', ''site'', ''templates'', ''posts'']"
    by (simp add: isdir_def posts_world_def)
  moreover have "\<not> isdir demo_world [''home'', ''site'', ''templates'', ''posts'']"
    by (simp add: isdir_def demo_world_def is_under_def)
  ultimately show ?thesis
    by (simp only: renderDocs_demo renderDoc_plain_posts renderDoc_plain_demo) simp
qed

section \<open>Where the documents are written\<close>

lemma renderDoc_file_writes:
  assumes "renderDoc_file c docType dest tmpl pl fp w = (None, w1)"
  shows "\<exists>body evs. trace w1 = trace w @ evs
           \<and> Write (newFilepath dest pl fp) (platify (pandoc c body docType) tmpl) \<in> set evs"
proof -
  from assms obtain body where body: "map_of (files w) (resolve c fp) = Some body"
    by (cases "map_of (files w) (resolve c fp)") (auto simp: renderDoc_file_def)
  let ?html = "platify (pandoc c body docType) tmpl"
  show ?thesis
  proof (cases pl)
    case True
    with assms body have "trace w1 = trace w @ [Mkdir (join dest (stem (basename fp))),
                                               Write (newFilepath dest pl fp) ?html]"
      by (auto simp: renderDoc_file_def Let_def write_text_def mkdir_p_def
            split: option.splits)
    then show ?thesis by (intro exI[of _ body]) auto
  next
    case False
    with assms body have "trace w1 = trace w @ [Write (newFilepath dest pl fp) ?html]"
      by (auto simp: renderDoc_file_def Let_def write_text_def split: option.splits)
    then show ?thesis by (intro exI[of _ body]) auto
  qed
qed

lemma renderDoc_loop_writes:
  assumes "renderDoc_loop c docType dest tmpl pl fps w = (None, w')"
  shows "\<exists>evs. trace w' = trace w @ evs
           \<and> (\<forall>fp\<in>set fps. \<exists>body. Write (newFilepath dest pl fp)
                   (platify (pandoc c body docType) tmpl) \<in> set evs)"
  using assms
proof (induction fps arbitrary: w)
  case Nil
  then show ?case by simp
next
  case (Cons fp fps)
  obtain r w1 where f: "renderDoc_file c docType dest tmpl pl fp w = (r, w1)"
    by (cases "renderDoc_file c docType dest tmpl pl fp w")
  with Cons.prems have r: "r = None"
    and rest: "renderDoc_loop c docType dest tmpl pl fps w1 = (None, w')"
    by (cases r; simp)+
  from renderDoc_file_writes[OF f[unfolded r]] obtain body evs1 where
    evs1: "trace w1 = trace w @ evs1"
      "Write (newFilepath dest pl fp) (platify (pandoc c body docType) tmpl) \<in> set evs1"
    by blast
  from Cons.IH[OF rest] obtain evs where evs: "trace w' = trace w1 @ evs"
     "\<forall>fp\<in>set fps. \<exists>body. Write (newFilepath dest pl fp)
                   (platify (pandoc c body docType) tmpl) \<in> set evs"
    by blast
  have "trace w' = trace w @ (evs1 @ evs)"
    using evs(1) evs1(1) by simp
  moreover have "\<forall>fp'\<in>set (fp # fps). \<exists>body. Write (newFilepath dest pl fp')
                   (platify (pandoc c body docType) tmpl) \<in> set (evs1 @ evs)"
    using evs(2) evs1(2) by auto
  ultimately show ?case by blast
qed

lemma written_key: "Write p x \<in> set evs \<Longrightarrow> resolve c p \<in> fst ` set (writes_of c evs)"
  by (induction evs rule: writes_of.induct) auto

lemma isfile_key: "isfile c w p \<longleftrightarrow> resolve c p \<in> fst ` set (files w)"
  by (simp add: isfile_def map_of_eq_None_iff)

lemma written_isfile:
  assumes "effect_ok c f" "trace (snd (f w)) = trace w @ evs" "Write p x \<in> set evs"
  shows "isfile c (snd (f w)) p"
proof -
  from assms(1) obtain evs' where e: "trace (snd (f w)) = trace w @ evs'"
      "files (snd (f w)) = apply_writes (writes_of c evs') (files w)"
    unfolding effect_ok_def by blast
  with assms(2) have "evs' = evs" by simp
  with e(2) written_key[OF assms(3), of c] show ?thesis
    by (simp add: isfile_key keys_apply_writes_set)
qed

lemma join_relative: "\<not> startswith b [sep] \<Longrightarrow> join a b = join a [] @ b"
  by (simp add: join_def startswith_def)

lemma startswith_append: "startswith (a @ b) a"
  by (simp add: startswith_def)

lemma startswith_trans: "startswith a b \<Longrightarrow> startswith b c \<Longrightarrow> startswith a c"
  unfolding startswith_def
  by (metis append_eq_conv_conj append.assoc append_take_drop_id)

lemma startswith_join: "\<not> startswith b [sep] \<Longrightarrow> startswith (join a b) a"
  by (auto simp: join_def startswith_def)

lemma sep_notin_basename: "sep \<notin> set (basename p)"
proof -
  have "\<forall>c\<in>set (takeWhile (\<lambda>c. c \<noteq> sep) (rev p)). c \<noteq> sep"
    using set_takeWhileD by fastforce
  then show ?thesis by (auto simp: basename_def)
qed

lemma set_stem: "set (stem n) \<subseteq> set n"
  by (auto simp: stem_def Let_def dest: in_set_takeD)

lemma not_startswith_sep: "sep \<notin> set x \<Longrightarrow> \<not> startswith x [sep]"
  by (cases x) (auto simp: startswith_def)

lemma newFilepath_pretty_under:
  assumes "\<not> startswith p [sep]"
  shows "startswith (newFilepath (join root p) True fp) (join root [])"
proof -
  have s: "\<not> startswith (stem (basename fp)) [sep]"
    using sep_notin_basename[of fp] set_stem[of "basename fp"]
    by (intro not_startswith_sep) auto
  have i: "\<not> startswith ''index.html'' [sep]"
    by (simp add: startswith_def sep_def)
  have "startswith (join root p) (join root [])"
    using join_relative[OF assms, of root] by (simp add: startswith_append)
  moreover have "startswith (join (join root p) (stem (basename fp))) (join root p)"
    using s by (rule startswith_join)
  moreover have "startswith (join (join (join root p) (stem (basename fp))) ''index.html'')
     (join (join root p) (stem (basename fp)))"
    using i by (rule startswith_join)
  ultimately show ?thesis
    unfolding newFilepath_def using startswith_trans by auto
qed

text \<open>
  Claim C10. \<open>renderDoc\<close>, called as the document stage calls it (\<open>prettyLink=True\<close>) on a
  relative document directory, writes for every document it converts the wrapped HTML
  at \<open>templatePath/<docdir>/<basename>/index.html\<close>: the write is among the calls it
  makes, the file exists afterwards, and its path lies under the template root.
\<close>

theorem C10_documents_written_under_templates:
  assumes "renderDoc c s docType p True w = (None, w')"
      and "fp \<in> set (glob c w (join (getcwd c) p) docType)"
      and "\<not> startswith p [sep]"
  shows "\<exists>evs body.
           trace w' = trace w @ evs
           \<and> Write (join (join (join (templatePath s) p) (stem (basename fp))) ''index.html'')
                (platify (pandoc c body docType) (''_'' @ basename p @ ''.html'')) \<in> set evs
           \<and> isfile c w' (join (join (join (templatePath s) p) (stem (basename fp))) ''index.html'')
           \<and> startswith (join (join (join (templatePath s) p) (stem (basename fp))) ''index.html'')
                (join (templatePath s) [])"
proof -
  from assms(1) have loop: "renderDoc_loop c docType (join (templatePath s) p) (docTemplate_of p) True
            (glob c w (join (getcwd c) p) docType) w = (None, w')"
    by (simp add: renderDoc_def Let_def split: if_splits)
  from renderDoc_loop_writes[OF loop] assms(2) obtain evs body where e:
     "trace w' = trace w @ evs"
     "Write (newFilepath (join (templatePath s) p) True fp)
                   (platify (pandoc c body docType) (docTemplate_of p)) \<in> set evs"
    by blast
  have "trace (snd (renderDoc c s docType p True w)) = trace w @ evs"
    using assms(1) e(1) by simp
  with renderDoc_ok(1) have "isfile c (snd (renderDoc c s docType p True w))
                                 (newFilepath (join (templatePath s) p) True fp)"
    using e(2) by (rule written_isfile)
  then have "isfile c w' (newFilepath (join (templatePath s) p) True fp)"
    using assms(1) by simp
  moreover note newFilepath_pretty_under[OF assms(3), of "templatePath s" fp] e
  ultimately show ?thesis
    unfolding newFilepath_def docTemplate_of_def by auto
qed

theorem C10_documents_written_under_templates_witness:
  "''/home/site/posts/hello.org''
     \<in> set (glob demo_collab demo_world (join (getcwd demo_collab) ''posts'') ''org'')
   \<and> \<not> startswith ''posts'' [sep]
   \<and> (\<exists>w'. renderDoc demo_collab (demo_site [] [''posts'']) ''org'' ''posts'' True demo_world
                = (None, w')
          \<and> isfile demo_collab w' ''templates/posts/hello/index.html''
          \<and> \<not> isfile demo_collab demo_world ''templates/posts/hello/index.html''
          \<and> startswith ''templates/posts/hello/index.html'' ''templates/'')"
proof -
  obtain r w' where rw:
    "renderDoc demo_collab (demo_site [] [''posts'']) ''org'' ''posts'' True demo_world = (r, w')"
    by (cases "renderDoc demo_collab (demo_site [] [''posts'']) ''org'' ''posts'' True demo_world")
  have "fst (renderDoc demo_collab (demo_site [] [''posts'']) ''org'' ''posts'' True demo_world)
          = None"
    by (simp add: demo_defs path_defs fs_defs build_defs Let_def)
  then have r: "r = None"
    unfolding rw by simp
  have fp: "''/home/site/posts/hello.org''
              \<in> set (glob demo_collab demo_world (join (getcwd demo_collab) ''posts'') ''org'')"
    by (simp add: glob_demo)
  have rel: "\<not> startswith ''posts'' [sep]"
    by (simp add: startswith_def sep_def)
  have "\<not> isfile demo_collab demo_world ''templates/posts/hello/index.html''"
    by (simp add: isfile_def demo_hello) (simp add: demo_world_def)
  with C10_documents_written_under_templates[OF rw[unfolded r] fp rel] rw r
  have "\<exists>w'. renderDoc demo_collab (demo_site [] [''posts'']) ''org'' ''posts'' True demo_world
                = (None, w')
          \<and> isfile demo_collab w' ''templates/posts/hello/index.html''
          \<and> \<not> isfile demo_collab demo_world ''templates/posts/hello/index.html''
          \<and> startswith ''templates/posts/hello/index.html'' ''templates/''"
    by (simp add: demo_defs path_defs)
  with fp rel show ?thesis
    by (intro conjI)
qed

end
